theory Spec2Isabelle
  imports Complex_Main "HOL-Library.Char_ord" "HOL-Library.List_Lexorder" "HOL-Library.AList"
    "HOL-Library.Multiset"
begin

section \<open>The plotting pipeline of \<open>cr_trichome\<close>\<close>

text \<open>
  A shallow embedding of \<open>python/cr_trichome/plot.py\<close>: \<open>get_last_output_path\<close>,
  \<open>get_all_iterations\<close>, \<open>load_cells\<close>, \<open>plot_cells\<close>, \<open>plot_cells_at_iter\<close> and
  \<open>plot_cells_at_all_iterations\<close>, each under its own name.  Exceptions are values
  (\<open>Inl\<close>), the file system and a trace of calls are passed as a state.

  What the model leaves out or fixes:
  \<^item> floats are reals and integers are unbounded (numpy would change the element type of
    the iteration array beyond 64 bits);
  \<^item> names are byte strings, compared byte by byte as Python compares code points; paths are
    lists of components below the working directory, without \<open>..\<close>, links or glob
    metacharacters in directory names;
  \<^item> a shard file is given by its parsed content, in the shape the producer writes, or is not
    JSON at all; records are given by their flattened columns;
  \<^item> drawing cannot fail: a figure is the list of its patches, and saving it writes that
    list; the colormap is a parameter;
  \<^item> the worker pool runs each job as one step, in an order that is a parameter.
\<close>

section \<open>Errors raised by the plotting pipeline\<close>

text \<open>
  Every exception that the modelled part of \<open>plot.py\<close> can raise is a value of this type.
  The constructor names are the Python exception classes, except \<open>NoFolderFound\<close>, which
  is the \<open>ValueError\<close> that \<open>get_last_output_path\<close> raises with the message
  "No folder found in directory ..." (it carries the searched directory), and
  \<open>InvalidLiteral\<close>, which is the \<open>ValueError\<close> of \<open>int\<close> on a string that is no
  integer literal.  \<open>ReshapeError\<close> is the \<open>ValueError\<close> of numpy's \<open>reshape\<close>.
  \<open>KeyError\<close> carries the missing key.
\<close>

datatype error =
    NoFolderFound "string list"
  | InvalidLiteral string
  | ReshapeError
  | KeyError string
  | IndexError
  | JSONDecodeError
  | UnicodeDecodeError
  | FileExistsError
  | NotADirectoryError
  | IsADirectoryError
  | FileNotFoundError

text \<open>
  A list comprehension or a \<open>for\<close> loop whose body may raise stops at the first
  exception; otherwise it yields every value in order.
\<close>

fun first_error :: "(error + 'a) list \<Rightarrow> error + 'a list" where
  "first_error [] = Inr []"
| "first_error (Inl e # rs) = Inl e"
| "first_error (Inr v # rs) = (case first_error rs of Inl e \<Rightarrow> Inl e | Inr vs \<Rightarrow> Inr (v # vs))"

section \<open>Paths and the file system\<close>

text \<open>
  A \<open>pathlib.Path\<close> is the list of its components, relative to the working directory;
  \<open>p / "a/b"\<close> appends the components \<open>a\<close> and \<open>b\<close>.  \<open>path_str\<close> is \<open>str(p)\<close> and
  \<open>name\<close> is \<open>p.name\<close>.
\<close>

type_synonym path = "string list"

fun path_str :: "path \<Rightarrow> string" where
  "path_str [] = ''.''"
| "path_str [a] = a"
| "path_str (a # b # r) = a @ ''/'' @ path_str (b # r)"

definition name :: "path \<Rightarrow> string" where
  "name p = (if p = [] then [] else last p)"

section \<open>What is drawn and what is stored\<close>

text \<open>
  Python floats are modelled as reals.  The one place where the source can leave the
  reals is the division in \<open>plot_cells\<close>: a numpy float divided by zero is \<open>inf\<close>,
  \<open>-inf\<close> or \<open>nan\<close> (with a warning, no exception), so the argument handed to the
  colormap is an \<open>npfloat\<close>.
\<close>

datatype npfloat = Finite real | PosInf | NegInf | NaN

definition np_divide :: "real \<Rightarrow> real \<Rightarrow> npfloat" where
  "np_divide a b =
     (if b \<noteq> 0 then Finite (a / b)
      else if a = 0 then NaN else if 0 < a then PosInf else NegInf)"

type_synonym rgba = "real \<times> real \<times> real \<times> real"

text \<open>
  The colormap (\<open>viridis\<close> resampled to 255 entries) is external: it is a parameter of the
  model, a function from the looked-up value to a colour.  \<open>viridis(0)\<close> in the source
  passes the integer \<open>0\<close>, the index of the lowest entry of the lookup table, which is
  also the colour of the value \<open>0.0\<close>; the model writes it \<open>viridis (Finite 0)\<close>.
\<close>

type_synonym colormap = "npfloat \<Rightarrow> rgba"

text \<open>\<open>mpatches.Polygon(pos, facecolor=c, edgecolor='white')\<close>\<close>

record patch =
  xy :: "real list list"
  facecolor :: rgba
  edgecolor :: string

text \<open>
  A record of a shard after \<open>pd.json_normalize\<close>: its columns by dotted name, each
  holding a flat numeric array.  (The flattening of nested objects into dotted names is
  pandas' and is not modelled; other kinds of values do not occur in the columns the
  pipeline reads.)  A shard file \<open>{"data": [{"element": [r, ...]}, ...]}\<close> is the list of
  its \<open>element\<close> lists.
\<close>

type_synonym row = "(string \<times> real list) list"

datatype content =
    Shard "row list list"
  | Png "patch list" bool
  | Other

datatype node = File content | Dir "(string \<times> node) list"

fun lookup :: "node \<Rightarrow> path \<Rightarrow> node option" where
  "lookup n [] = Some n"
| "lookup (File c) (x # xs) = None"
| "lookup (Dir es) (x # xs) = (case map_of es x of None \<Rightarrow> None | Some n \<Rightarrow> lookup n xs)"

definition exists :: "node \<Rightarrow> path \<Rightarrow> bool" where
  "exists disk p = (lookup disk p \<noteq> None)"

text \<open>The names of the entries of a directory, in the order the system lists them.\<close>

definition listdir :: "node \<Rightarrow> path \<Rightarrow> string list" where
  "listdir disk p = (case lookup disk p of Some (Dir es) \<Rightarrow> map fst es | _ \<Rightarrow> [])"

text \<open>
  \<open>glob(str(p / "*"))\<close>: every entry of \<open>p\<close>, file or directory, whose name does not
  start with a dot; nothing when \<open>p\<close> is no directory.  \<open>glob(str(p / "*.json"))\<close>
  keeps the names that end in \<open>.json\<close>.
\<close>

definition hidden :: "string \<Rightarrow> bool" where
  "hidden n = (case n of [] \<Rightarrow> False | c # _ \<Rightarrow> c = CHR ''.'')"

definition glob_star :: "node \<Rightarrow> path \<Rightarrow> path list" where
  "glob_star disk p = map (\<lambda>n. p @ [n]) (filter (\<lambda>n. \<not> hidden n) (listdir disk p))"

definition ends_with :: "string \<Rightarrow> string \<Rightarrow> bool" where
  "ends_with n suf = (length suf \<le> length n \<and> drop (length n - length suf) n = suf)"

definition glob_json :: "node \<Rightarrow> path \<Rightarrow> path list" where
  "glob_json disk p =
     map (\<lambda>n. p @ [n]) (filter (\<lambda>n. \<not> hidden n \<and> ends_with n ''.json'') (listdir disk p))"

text \<open>\<open>p.mkdir(parents=True, exist_ok=True)\<close>\<close>

fun mkdir_parents :: "node \<Rightarrow> path \<Rightarrow> error + node" where
  "mkdir_parents (Dir es) [] = Inr (Dir es)"
| "mkdir_parents (File c) [] = Inl FileExistsError"
| "mkdir_parents (File c) (x # xs) = Inl NotADirectoryError"
| "mkdir_parents (Dir es) (x # xs) =
     (case mkdir_parents (case map_of es x of None \<Rightarrow> Dir [] | Some n \<Rightarrow> n) xs of
        Inl e \<Rightarrow> Inl e
      | Inr n' \<Rightarrow> Inr (Dir (AList.update x n' es)))"

text \<open>Writing a file (\<open>fig.savefig\<close>): the parent directory must exist.\<close>

fun write_file :: "node \<Rightarrow> path \<Rightarrow> content \<Rightarrow> error + node" where
  "write_file (File c0) [] c = Inr (File c)"
| "write_file (Dir es) [] c = Inl IsADirectoryError"
| "write_file (File c0) (x # xs) c = Inl NotADirectoryError"
| "write_file (Dir es) (x # xs) c =
     (case map_of es x of
        None \<Rightarrow> (if xs = [] then Inr (Dir (AList.update x (File c) es)) else Inl FileNotFoundError)
      | Some n \<Rightarrow>
          (case write_file n xs c of
             Inl e \<Rightarrow> Inl e
           | Inr n' \<Rightarrow> Inr (Dir (AList.update x n' es))))"

text \<open>
  The state that the functions read and change: the file tree below the working
  directory, and a trace of the calls whose number the specification speaks about.
\<close>

datatype event = Resolve path | Load int path | Render int

record state =
  fs :: node
  trace :: "event list"

section \<open>\<open>get_last_output_path\<close>\<close>

definition get_last_output_path :: "node \<Rightarrow> path \<Rightarrow> error + path" where
  "get_last_output_path disk search_path =
     (let folders = sort_key path_str (glob_star disk search_path)
      in if length folders = 0 then Inl (NoFolderFound search_path)
         else Inr (last folders))"

definition default_search_path :: path where
  "default_search_path = [''out'', ''cr_trichome'']"

text \<open>
  The idiom \<open>if output_path is None: output_path = get_last_output_path()\<close> that opens
  every other function.
\<close>

definition resolve :: "path option \<Rightarrow> state \<Rightarrow> (error + path) \<times> state" where
  "resolve output_path s =
     (case output_path of
        Some p \<Rightarrow> (Inr p, s)
      | None \<Rightarrow> (get_last_output_path (fs s) default_search_path,
                 s\<lparr>trace := trace s @ [Resolve default_search_path]\<rparr>))"

section \<open>\<open>get_all_iterations\<close>\<close>

text \<open>
  \<open>int(s)\<close> on an ASCII string: surrounding whitespace is stripped, one sign is
  allowed, and the digits may be grouped by single underscores.
\<close>

definition py_isspace :: "char \<Rightarrow> bool" where
  "py_isspace c = (let k = (of_char c :: nat) in (9 \<le> k \<and> k \<le> 13) \<or> (28 \<le> k \<and> k \<le> 32))"

definition strip :: "string \<Rightarrow> string" where
  "strip s = rev (dropWhile py_isspace (rev (dropWhile py_isspace s)))"

definition is_digit :: "char \<Rightarrow> bool" where
  "is_digit c = (c \<in> set ''0123456789'')"

definition digit_value :: "char \<Rightarrow> int" where
  "digit_value c = int (of_char c) - 48"

text \<open>A digit, then digits each preceded by at most one underscore.\<close>

fun digits_ok :: "string \<Rightarrow> bool" where
  "digits_ok [] = False"
| "digits_ok [c] = is_digit c"
| "digits_ok (c # d # r) =
     (is_digit c \<and> (if d = CHR ''_'' then digits_ok r else digits_ok (d # r)))"

definition digits_value :: "string \<Rightarrow> int" where
  "digits_value s = foldl (\<lambda>acc c. 10 * acc + digit_value c) 0 (filter is_digit s)"

definition py_int :: "string \<Rightarrow> error + int" where
  "py_int s =
     (let t = strip s;
          neg = (t \<noteq> [] \<and> hd t = CHR ''-'');
          body = (if t \<noteq> [] \<and> (hd t = CHR ''-'' \<or> hd t = CHR ''+'') then tl t else t)
      in if digits_ok body then Inr (if neg then - digits_value body else digits_value body)
         else Inl (InvalidLiteral s))"

definition get_all_iterations :: "path option \<Rightarrow> state \<Rightarrow> (error + int list) \<times> state" where
  "get_all_iterations output_path s =
     (case resolve output_path s of
        (Inl e, s1) \<Rightarrow> (Inl e, s1)
      | (Inr op, s1) \<Rightarrow>
          (let folders = glob_star (fs s1) (op @ [''cells'', ''json''])
           in case first_error (map (\<lambda>f. py_int (name f)) folders) of
                Inl e \<Rightarrow> (Inl e, s1)
              | Inr ints \<Rightarrow> (Inr (sort ints), s1)))"

section \<open>\<open>load_cells\<close>\<close>

text \<open>\<open>"{:020}".format(iteration)\<close>: sign first, then zeros up to a width of 20.\<close>

fun str_nat :: "nat \<Rightarrow> string" where
  "str_nat n = (if n < 10 then [''0123456789'' ! n]
                else str_nat (n div 10) @ [''0123456789'' ! (n mod 10)])"

declare str_nat.simps [simp del]

definition format_020 :: "int \<Rightarrow> string" where
  "format_020 i =
     (if i < 0 then CHR ''-'' # replicate (19 - length (str_nat (nat (- i)))) CHR ''0''
                    @ str_nat (nat (- i))
      else replicate (20 - length (str_nat (nat i))) CHR ''0'' @ str_nat (nat i))"

text \<open>
  \<open>np.array(x, dtype=float)\<close> of a table entry: a flat list gives a vector; an entry
  that is missing in this record (pandas fills it with \<open>NaN\<close>) gives the
  zero-dimensional array holding \<open>nan\<close>.
\<close>

datatype ndarray = Scalar_nan | Vector "real list"

definition np_array :: "real list option \<Rightarrow> ndarray" where
  "np_array x = (case x of None \<Rightarrow> Scalar_nan | Some v \<Rightarrow> Vector v)"

text \<open>
  \<open>a.reshape((2, -1))\<close>: the unknown dimension is half the size when the size is even
  (also when it is 0), otherwise numpy raises \<open>ValueError\<close>; the zero-dimensional array
  has size 1.  The two rows are filled in C order.
\<close>

definition reshape_2_rows :: "ndarray \<Rightarrow> error + real list list" where
  "reshape_2_rows a =
     (case a of
        Scalar_nan \<Rightarrow> Inl ReshapeError
      | Vector x \<Rightarrow>
          (if length x mod 2 \<noteq> 0 then Inl ReshapeError
           else let m = length x div 2 in Inr [take m x, take m (drop m x)]))"

text \<open>\<open>.T\<close> of a two-dimensional array: entry \<open>(j, i)\<close> of the result is entry \<open>(i, j)\<close>.\<close>

definition T :: "real list list \<Rightarrow> real list list" where
  "T rows = (case rows of [] \<Rightarrow> []
             | r # _ \<Rightarrow> map (\<lambda>j. map (\<lambda>row. row ! j) rows) [0..<length r])"

text \<open>The function applied to the points column (lines 88--90).\<close>

definition reshape_points :: "real list option \<Rightarrow> error + real list list" where
  "reshape_points x =
     (case reshape_2_rows (np_array x) of Inl e \<Rightarrow> Inl e | Inr rows \<Rightarrow> Inr (T rows))"

text \<open>
  \<open>df[c]\<close> on the table built from a list of records: the column exists when some
  record has the key, and holds \<open>NaN\<close> (here \<open>None\<close>) for the records without it; the
  table of no records has no columns.
\<close>

definition column :: "row list \<Rightarrow> string \<Rightarrow> error + real list option list" where
  "column df c =
     (if list_ex (\<lambda>r. c \<in> set (map fst r)) df then Inr (map (\<lambda>r. map_of r c) df)
      else Inl (KeyError c))"

text \<open>
  Lines 84--86 for one file: open it, parse it, take \<open>b["element"][0]\<close> of every entry
  of \<open>data\<close>.  A bitmap is not text, and any other file is text that is not JSON.
\<close>

definition read_shard :: "node \<Rightarrow> path \<Rightarrow> error + row list" where
  "read_shard disk file =
     (case lookup disk file of
        None \<Rightarrow> Inl FileNotFoundError
      | Some (Dir es) \<Rightarrow> Inl IsADirectoryError
      | Some (File (Shard data)) \<Rightarrow>
          first_error (map (\<lambda>element. case element of [] \<Rightarrow> Inl IndexError | r # _ \<Rightarrow> Inr r) data)
      | Some (File (Png ax transparent)) \<Rightarrow> Inl UnicodeDecodeError
      | Some (File Other) \<Rightarrow> Inl JSONDecodeError)"

text \<open>The loop of lines 82--86 over the shard files of one iteration, in listing order.\<close>

definition read_results :: "node \<Rightarrow> path \<Rightarrow> int \<Rightarrow> error + row list" where
  "read_results disk output_path iteration =
     (let files = glob_json disk (output_path @ [''cells'', ''json'', format_020 iteration])
      in case first_error (map (read_shard disk) files) of
           Inl e \<Rightarrow> Inl e
         | Inr batches \<Rightarrow> Inr (concat batches))"

text \<open>The two columns of the loaded table that the renderer reads.\<close>

record cell =
  points :: "real list list"
  intracellular :: ndarray

definition load_cells :: "int \<Rightarrow> path option \<Rightarrow> state \<Rightarrow> (error + cell list) \<times> state" where
  "load_cells iteration output_path s =
     (case resolve output_path s of
        (Inl e, s1) \<Rightarrow> (Inl e, s1)
      | (Inr op, s1) \<Rightarrow>
          (let s2 = s1\<lparr>trace := trace s1 @ [Load iteration op]\<rparr>
           in case read_results (fs s2) op iteration of
                Inl e \<Rightarrow> (Inl e, s2)
              | Inr results \<Rightarrow>
                  (case column results ''cell.mechanics.points'' of
                     Inl e \<Rightarrow> (Inl e, s2)
                   | Inr xs \<Rightarrow>
                       (case first_error (map reshape_points xs) of
                          Inl e \<Rightarrow> (Inl e, s2)
                        | Inr pts \<Rightarrow>
                            (case column results ''cell.intracellular'' of
                               Inl e \<Rightarrow> (Inl e, s2)
                             | Inr ys \<Rightarrow>
                                 (Inr (map2 (\<lambda>p y. \<lparr>points = p, intracellular = np_array y\<rparr>)
                                         pts ys), s2))))))"

section \<open>\<open>plot_cells\<close>\<close>

text \<open>\<open>a[i]\<close> for a non-negative index \<open>i\<close>.\<close>

definition item :: "ndarray \<Rightarrow> nat \<Rightarrow> error + real" where
  "item a i =
     (case a of
        Scalar_nan \<Rightarrow> Inl IndexError
      | Vector v \<Rightarrow> if i < length v then Inr (v ! i) else Inl IndexError)"

text \<open>The body of the loop of \<open>plot_cells\<close> (lines 99--104); \<open>ax\<close> is the list of patches.\<close>

definition plot_cells_body ::
  "colormap \<Rightarrow> real \<Rightarrow> real \<Rightarrow> real \<Rightarrow> patch list \<Rightarrow> cell \<Rightarrow> error + patch list" where
  "plot_cells_body viridis thresh intra_low intra_high ax c =
     (case item (intracellular c) 2 of
        Inl e \<Rightarrow> Inl e
      | Inr t \<Rightarrow>
          (let col = (if t < thresh then viridis (Finite 0)
                      else viridis (np_divide (t - intra_low) (intra_high - intra_low)))
           in Inr (ax @ [\<lparr>xy = points c, facecolor = col, edgecolor = ''white''\<rparr>])))"

fun plot_cells_loop ::
  "colormap \<Rightarrow> real \<Rightarrow> real \<Rightarrow> real \<Rightarrow> patch list \<Rightarrow> cell list \<Rightarrow> error + patch list" where
  "plot_cells_loop viridis thresh intra_low intra_high ax [] = Inr ax"
| "plot_cells_loop viridis thresh intra_low intra_high ax (c # cs) =
     (case plot_cells_body viridis thresh intra_low intra_high ax c of
        Inl e \<Rightarrow> Inl e
      | Inr ax' \<Rightarrow> plot_cells_loop viridis thresh intra_low intra_high ax' cs)"

definition plot_cells ::
  "colormap \<Rightarrow> patch list \<Rightarrow> cell list \<Rightarrow> real \<Rightarrow> real \<Rightarrow> error + patch list" where
  "plot_cells viridis ax df_cells intra_low intra_high =
     (let thresh = intra_low + 0.5 * (intra_high - intra_low)
      in plot_cells_loop viridis thresh intra_low intra_high ax df_cells)"

section \<open>\<open>plot_cells_at_iter\<close>\<close>

definition snapshot_name :: "int \<Rightarrow> string" where
  "snapshot_name iteration = ''snapshot-'' @ format_020 iteration @ ''.png''"

text \<open>
  Lines 145--148: the directory of the images (\<open>output_path / "images"\<close> unless
  \<open>save_path\<close> is given) and the file of one iteration in it.
\<close>

definition snapshot_dir :: "path \<Rightarrow> path option \<Rightarrow> path" where
  "snapshot_dir output_path save_path =
     (case save_path of None \<Rightarrow> output_path @ [''images''] | Some p \<Rightarrow> p)"

definition snapshot_path :: "path \<Rightarrow> path option \<Rightarrow> int \<Rightarrow> path" where
  "snapshot_path output_path save_path iteration =
     snapshot_dir output_path save_path @ [snapshot_name iteration]"

definition plot_cells_at_iter ::
  "colormap \<Rightarrow> int \<Rightarrow> real \<Rightarrow> real \<Rightarrow> path option \<Rightarrow> path option \<Rightarrow> bool \<Rightarrow> bool
     \<Rightarrow> state \<Rightarrow> (error + path) \<times> state" where
  "plot_cells_at_iter viridis iteration intra_low intra_high output_path save_path
       overwrite transparent s =
     (case resolve output_path s of
        (Inl e, s1) \<Rightarrow> (Inl e, s1)
      | (Inr op, s1) \<Rightarrow>
          (case mkdir_parents (fs s1) (snapshot_dir op save_path) of
             Inl e \<Rightarrow> (Inl e, s1)
           | Inr disk2 \<Rightarrow>
               (let s2 = s1\<lparr>fs := disk2\<rparr>;
                    target = snapshot_path op save_path iteration
                in if exists (fs s2) target \<and> \<not> overwrite then (Inr target, s2)
                   else case load_cells iteration (Some op) s2 of
                          (Inl e, s3) \<Rightarrow> (Inl e, s3)
                        | (Inr cells, s3) \<Rightarrow>
                            (let s4 = s3\<lparr>trace := trace s3 @ [Render iteration]\<rparr>
                             in case plot_cells viridis [] cells intra_low intra_high of
                                  Inl e \<Rightarrow> (Inl e, s4)
                                | Inr ax \<Rightarrow>
                                    (case write_file (fs s4) target (Png ax transparent) of
                                       Inl e \<Rightarrow> (Inl e, s4)
                                     | Inr disk5 \<Rightarrow> (Inr target, s4\<lparr>fs := disk5\<rparr>))))))"

section \<open>\<open>plot_cells_at_all_iterations\<close>\<close>

type_synonym args = "int \<times> real \<times> real"

type_synonym kwargs = "path option \<times> path option \<times> bool \<times> bool"

definition plotting_helper ::
  "colormap \<Rightarrow> args \<times> kwargs \<Rightarrow> state \<Rightarrow> (error + path) \<times> state" where
  "plotting_helper viridis args_kwargs s =
     (case args_kwargs of
        ((iteration, intra_low, intra_high), (output_path, save_path, overwrite, transparent)) \<Rightarrow>
          plot_cells_at_iter viridis iteration intra_low intra_high output_path save_path
            overwrite transparent s)"

text \<open>
  \<open>pool.imap(f, jobs)\<close>: the worker processes take the jobs and finish them in some
  order, here the list \<open>order\<close> of job indices (each job runs as one step on the shared
  file system); the iterator then yields the results by job index, not by time of
  completion.  \<open>list(...)\<close> takes the results in that order and re-raises the first
  exception it meets.
\<close>

fun run_jobs ::
  "('j \<Rightarrow> state \<Rightarrow> (error + 'r) \<times> state) \<Rightarrow> 'j list \<Rightarrow> nat list \<Rightarrow> state
     \<Rightarrow> (nat \<times> (error + 'r)) list \<times> state" where
  "run_jobs f jobs [] s = ([], s)"
| "run_jobs f jobs (i # order) s =
     (case f (jobs ! i) s of
        (r, s1) \<Rightarrow> (case run_jobs f jobs order s1 of (rs, s2) \<Rightarrow> ((i, r) # rs, s2)))"

definition imap ::
  "('j \<Rightarrow> state \<Rightarrow> (error + 'r) \<times> state) \<Rightarrow> 'j list \<Rightarrow> nat list \<Rightarrow> state
     \<Rightarrow> (error + 'r) list \<times> state" where
  "imap f jobs order s =
     (case run_jobs f jobs order s of (finished, s') \<Rightarrow> (map snd (sort_key fst finished), s'))"

text \<open>The list comprehension of lines 180--188.\<close>

definition arguments ::
  "int list \<Rightarrow> real \<Rightarrow> real \<Rightarrow> path \<Rightarrow> path option \<Rightarrow> bool \<Rightarrow> bool \<Rightarrow> (args \<times> kwargs) list" where
  "arguments iterations intra_min intra_max output_path save_path overwrite transparent =
     map (\<lambda>it. ((it, intra_min, intra_max), (Some output_path, save_path, overwrite, transparent)))
       iterations"

definition plot_cells_at_all_iterations ::
  "colormap \<Rightarrow> real \<Rightarrow> real \<Rightarrow> path option \<Rightarrow> path option \<Rightarrow> bool \<Rightarrow> bool \<Rightarrow> nat list
     \<Rightarrow> state \<Rightarrow> (error + path list) \<times> state" where
  "plot_cells_at_all_iterations viridis intra_min intra_max output_path save_path
       overwrite transparent order s =
     (case resolve output_path s of
        (Inl e, s1) \<Rightarrow> (Inl e, s1)
      | (Inr op, s1) \<Rightarrow>
          (case get_all_iterations (Some op) s1 of
             (Inl e, s2) \<Rightarrow> (Inl e, s2)
           | (Inr iterations, s2) \<Rightarrow>
               (case imap (plotting_helper viridis)
                       (arguments iterations intra_min intra_max op save_path overwrite
                          transparent) order s2 of
                  (results, s3) \<Rightarrow> (first_error results, s3))))"

section \<open>Notions used to state the properties\<close>

text \<open>
  The colouring rule as the specification words it: below the midpoint the floor colour
  \<open>colormap(0)\<close>, from the midpoint on \<open>colormap((t - intraLow) / (intraHigh - intraLow))\<close>.
\<close>

definition threshold_color :: "colormap \<Rightarrow> real \<Rightarrow> real \<Rightarrow> real \<Rightarrow> rgba" where
  "threshold_color colormap intraLow intraHigh t =
     (let midpoint = intraLow + 0.5 * (intraHigh - intraLow)
      in if t < midpoint then colormap (Finite 0)
         else colormap (Finite ((t - intraLow) / (intraHigh - intraLow))))"


text \<open>
  A loaded cell given by its polygon and its intracellular vector, and the patch that the
  specification's rule asks for.
\<close>

definition raw_cell :: "real list list \<times> real list \<Rightarrow> cell" where
  "raw_cell c = \<lparr>points = fst c, intracellular = Vector (snd c)\<rparr>"

definition colored_patch ::
  "colormap \<Rightarrow> real \<Rightarrow> real \<Rightarrow> real list list \<times> real list \<Rightarrow> patch" where
  "colored_patch colormap intraLow intraHigh c =
     \<lparr>xy = fst c, facecolor = threshold_color colormap intraLow intraHigh (snd c ! 2),
      edgecolor = ''white''\<rparr>"


text \<open>Re-flattening a point sequence: all first coordinates, then all second coordinates.\<close>

definition reflatten :: "real list list \<Rightarrow> real list" where
  "reflatten pts = map (\<lambda>p. p ! 0) pts @ map (\<lambda>p. p ! 1) pts"


text \<open>
  The immediate subdirectories of a directory, which is what the specification says
  \<open>latestRun\<close> lists, and the names that the glob of \<open>get_last_output_path\<close> matches:
  the entries of any kind whose name does not start with a dot.
\<close>

definition subdirectories :: "node \<Rightarrow> path \<Rightarrow> string list" where
  "subdirectories disk p =
     (case lookup disk p of
        Some (Dir es) \<Rightarrow>
          map fst (filter (\<lambda>e. case snd e of Dir _ \<Rightarrow> True | File _ \<Rightarrow> False) es)
      | _ \<Rightarrow> [])"


definition visible_names :: "node \<Rightarrow> path \<Rightarrow> string list" where
  "visible_names disk p = filter (\<lambda>n. \<not> hidden n) (listdir disk p)"

text \<open>\<open>str(p / n)\<close> is \<open>n\<close> behind a prefix that depends on \<open>p\<close> only.\<close>

fun path_prefix :: "path \<Rightarrow> string" where
  "path_prefix [] = []"
| "path_prefix (a # r) = a @ ''/'' @ path_prefix r"

text \<open>The names that \<open>get_all_iterations\<close> parses: the entries matched below \<open>cells/json\<close>.\<close>

definition iteration_names :: "node \<Rightarrow> path \<Rightarrow> string list" where
  "iteration_names disk run = map name (glob_star disk (run @ [''cells'', ''json'']))"


text \<open>An intracellular vector with fewer than three components.\<close>

definition short_vector :: "ndarray \<Rightarrow> bool" where
  "short_vector a = (case a of Scalar_nan \<Rightarrow> False | Vector v \<Rightarrow> length v < 3)"


text \<open>
  The events that resolving the run adds to the trace: one \<open>Resolve\<close> when no run is
  passed, none otherwise.
\<close>

definition resolve_events :: "path option \<Rightarrow> event list" where
  "resolve_events output_path =
     (case output_path of None \<Rightarrow> [Resolve default_search_path] | Some p \<Rightarrow> [])"


text \<open>
  The target path as \<open>plot_cells_at_iter\<close> computes it (lines 143--148), when the run is
  passed or found.
\<close>

definition target_path :: "path option \<Rightarrow> path option \<Rightarrow> int \<Rightarrow> state \<Rightarrow> error + path" where
  "target_path output_path save_path iteration s =
     (case fst (resolve output_path s) of
        Inl e \<Rightarrow> Inl e
      | Inr op \<Rightarrow> Inr (snapshot_path op save_path iteration))"


text \<open>
  The events that the jobs of a batch on the run \<open>op\<close> may add: loads from \<open>op\<close> and
  renders, never a \<open>Resolve\<close>.  \<open>resolves\<close> counts how often the trace resolved a run.
\<close>

definition batch_event :: "path \<Rightarrow> event \<Rightarrow> bool" where
  "batch_event op e = (case e of Resolve sp \<Rightarrow> False | Load it p \<Rightarrow> p = op | Render it \<Rightarrow> True)"

definition resolves :: "event list \<Rightarrow> nat" where
  "resolves tr = length (filter (\<lambda>e. case e of Resolve sp \<Rightarrow> True | _ \<Rightarrow> False) tr)"


section \<open>Concrete inputs\<close>

text \<open>A colormap to run the model on: grey levels, transparent black outside the reals.\<close>

definition grey :: colormap where
  "grey v = (case v of Finite r \<Rightarrow> (r, r, r, 1) | _ \<Rightarrow> (0, 0, 0, 0))"


text \<open>
  A search root that holds two runs and a stray file, and one that holds only a file.
\<close>

definition disk_stray_file :: node where
  "disk_stray_file =
     Dir [(''out'', Dir [(''cr_trichome'',
        Dir [(''2024-07-31-T17-34-27'', Dir []), (''2024-07-31-T17-34-57'', Dir []),
             (''notes.txt'', File Other)])])]"

definition disk_only_file :: node where
  "disk_only_file = Dir [(''out'', Dir [(''cr_trichome'', Dir [(''notes.txt'', File Other)])])]"


text \<open>
  A run in which two directory names parse to the same iteration, and one with the two
  directories of the specification's example.
\<close>

definition disk_duplicate :: node where
  "disk_duplicate =
     Dir [(''run'', Dir [(''cells'', Dir [(''json'',
        Dir [(''00000000000000000001'', Dir []), (''1'', Dir [])])])])]"

definition disk_two_iterations :: node where
  "disk_two_iterations =
     Dir [(''run'', Dir [(''cells'', Dir [(''json'',
        Dir [(''00000000000000000003'', Dir []), (''00000000000000000001'', Dir [])])])])]"


text \<open>
  Runs with one iteration, 1, given by the files of its shard directory: no shard at all,
  a record without the points field, a record with a two-component intracellular
  vector, and a record with five coordinates.  \<open>shard_disk_images\<close> is the same run once
  its \<open>images\<close> directory exists.
\<close>

definition shard_disk :: "(string \<times> node) list \<Rightarrow> node" where
  "shard_disk files =
     Dir [(''run'', Dir [(''cells'', Dir [(''json'', Dir [(''00000000000000000001'', Dir files)])])])]"

definition shard_disk_images :: "(string \<times> node) list \<Rightarrow> node" where
  "shard_disk_images files =
     Dir [(''run'', Dir [(''cells'', Dir [(''json'', Dir [(''00000000000000000001'', Dir files)])]),
                         (''images'', Dir [])])]"

definition row_odd :: row where
  "row_odd = [(''cell.mechanics.points'', [0, 1, 0, 0, 0]), (''cell.intracellular'', [1, 2, 3])]"

definition row_short :: row where
  "row_short = [(''cell.mechanics.points'', [0, 1, 0, 0, 0, 1]), (''cell.intracellular'', [1, 2])]"

definition disk_empty_iteration :: node where
  "disk_empty_iteration = shard_disk []"

definition disk_no_points :: node where
  "disk_no_points = shard_disk [(''a.json'', File (Shard [[[(''cell.intracellular'', [1, 2, 3])]]]))]"

definition disk_short_vector :: node where
  "disk_short_vector = shard_disk [(''a.json'', File (Shard
      [[[(''cell.mechanics.points'', [0, 1, 0, 0, 0, 1]), (''cell.intracellular'', [1, 2])]]]))]"

definition disk_odd_points :: node where
  "disk_odd_points = shard_disk [(''a.json'', File (Shard
      [[[(''cell.mechanics.points'', [0, 1, 0, 0, 0]), (''cell.intracellular'', [1, 2, 3])]]]))]"


text \<open>
  A search root with one run that holds the iterations 3 and 1 (listed in this order), the
  same run with iteration 3 left without any shard, and the paths of the run and of its
  two snapshots.
\<close>

definition row_a :: row where
  "row_a = [(''cell.mechanics.points'', [0, 10, 10, 0, 0, 0, 10, 10]),
            (''cell.intracellular'', [1, 2, 3])]"

definition row_b :: row where
  "row_b = [(''cell.mechanics.points'', [0, 1, 0, 0, 0, 1]), (''cell.intracellular'', [0, 0, 1.9])]"

definition run_tree :: "(string \<times> node) list \<Rightarrow> node" where
  "run_tree iteration_dirs =
     Dir [(''out'', Dir [(''cr_trichome'', Dir [(''run1'',
        Dir [(''cells'', Dir [(''json'', Dir iteration_dirs)])])])])]"

definition disk_one_run :: node where
  "disk_one_run = run_tree
     [(''00000000000000000003'', Dir [(''b.json'', File (Shard [[row_b]]))]),
      (''00000000000000000001'', Dir [(''a.json'', File (Shard [[row_a], [row_b]]))])]"

definition disk_bad_iteration :: node where
  "disk_bad_iteration = run_tree
     [(''00000000000000000003'', Dir []),
      (''00000000000000000001'', Dir [(''a.json'', File (Shard [[row_a], [row_b]]))])]"

definition run1 :: path where
  "run1 = [''out'', ''cr_trichome'', ''run1'']"

definition snapshot_1 :: path where
  "snapshot_1 = [''out'', ''cr_trichome'', ''run1'', ''images'', ''snapshot-00000000000000000001.png'']"

definition snapshot_3 :: path where
  "snapshot_3 = [''out'', ''cr_trichome'', ''run1'', ''images'', ''snapshot-00000000000000000003.png'']"


text \<open>A directory of images in which the snapshot of iteration 1 exists; there is no run.\<close>

definition disk_rendered :: node where
  "disk_rendered =
     Dir [(''shots'', Dir [(''snapshot-00000000000000000001.png'', File Other)])]"

section \<open>The reshape of the points column\<close>

lemma reshape_points_even:
  assumes "length x = 2 * n"
  shows "reshape_points (Some x) = Inr (map (\<lambda>j. [x ! j, x ! (n + j)]) [0..<n])"
  using assms by (simp add: reshape_points_def np_array_def reshape_2_rows_def T_def Let_def)

text \<open>
  Claim C2.  A flat coordinate array of length \<open>2n\<close> is reshaped without error into
  exactly \<open>n\<close> points; point \<open>i\<close> pairs entry \<open>i\<close> of the first half with entry \<open>i\<close> of the
  second half, in the original order; and re-flattening the points (first coordinates,
  then second coordinates) gives the input array back.
\<close>

theorem reshape_points_roundtrip:
  assumes "length x = 2 * n"
  shows "\<exists>pts. reshape_points (Some x) = Inr pts \<and> length pts = n
           \<and> (\<forall>i<n. pts ! i = [x ! i, x ! (n + i)])
           \<and> reflatten pts = x"
proof -
  let ?pts = "map (\<lambda>j. [x ! j, x ! (n + j)]) [0..<n]"
  have "reflatten ?pts = x"
    unfolding reflatten_def using assms by (intro nth_equalityI) (auto simp: nth_append)
  with reshape_points_even [OF assms] show ?thesis by simp
qed

theorem reshape_points_roundtrip_witness:
  "length [1, 2, 3, 4, 5, 6 :: real] = 2 * 3
   \<and> (\<exists>pts. reshape_points (Some [1, 2, 3, 4, 5, 6]) = Inr pts \<and> length pts = 3
           \<and> (\<forall>i<3. pts ! i = [[1, 2, 3, 4, 5, 6] ! i, [1, 2, 3, 4, 5, 6] ! (3 + i)])
           \<and> reflatten pts = [1, 2, 3, 4, 5, 6])
   \<and> reshape_points (Some [1, 2, 3, 4, 5, 6]) = Inr [[1, 4], [2, 5], [3, 6]]"
proof -
  have h: "length [1, 2, 3, 4, 5, 6 :: real] = 2 * 3" by simp
  have v: "reshape_points (Some [1, 2, 3, 4, 5, 6]) = Inr [[1, 4], [2, 5], [3, 6]]"
    by (simp add: reshape_points_def np_array_def reshape_2_rows_def T_def upt_rec)
  from reshape_points_roundtrip [OF h] h v show ?thesis by blast
qed

section \<open>The colouring rule\<close>

lemma plot_cells_loop_rule:
  assumes "intra_low < intra_high" and "\<forall>c \<in> set cells. 2 < length (snd c)"
  shows "plot_cells_loop viridis (intra_low + 0.5 * (intra_high - intra_low))
           intra_low intra_high ax (map raw_cell cells)
         = Inr (ax @ map (colored_patch viridis intra_low intra_high) cells)"
  using assms
proof (induction cells arbitrary: ax)
  case Nil
  then show ?case by simp
next
  case (Cons c cells)
  have "plot_cells_body viridis (intra_low + 0.5 * (intra_high - intra_low))
          intra_low intra_high ax (raw_cell c)
        = Inr (ax @ [colored_patch viridis intra_low intra_high c])"
    using Cons.prems
    by (simp add: plot_cells_body_def item_def raw_cell_def colored_patch_def
        threshold_color_def np_divide_def Let_def)
  with Cons show ?case by simp
qed

text \<open>
  Claim C1.  For bounds \<open>intra_low < intra_high\<close> and cells whose intracellular vector
  has a component 2, \<open>plot_cells\<close> adds one white-edged polygon per cell, in order, whose
  face colour is the one the specification's rule gives for \<open>t = intracellular[2]\<close>.
  For the bounds 0 and 4: \<open>t = 1.9\<close> gives the floor colour, \<open>t = 2.0\<close> gives
  \<open>colormap(0.5)\<close> and \<open>t = 4.0\<close> gives \<open>colormap(1.0)\<close>.
\<close>

theorem plot_cells_threshold_coloring:
  "(intra_low < intra_high \<and> (\<forall>c \<in> set cells. 2 < length (snd c)) \<longrightarrow>
      plot_cells viridis ax (map raw_cell cells) intra_low intra_high
        = Inr (ax @ map (colored_patch viridis intra_low intra_high) cells))
   \<and> plot_cells viridis [] [raw_cell (p, [a, b, 1.9])] 0 4
        = Inr [\<lparr>xy = p, facecolor = viridis (Finite 0), edgecolor = ''white''\<rparr>]
   \<and> plot_cells viridis [] [raw_cell (p, [a, b, 2.0])] 0 4
        = Inr [\<lparr>xy = p, facecolor = viridis (Finite 0.5), edgecolor = ''white''\<rparr>]
   \<and> plot_cells viridis [] [raw_cell (p, [a, b, 4.0])] 0 4
        = Inr [\<lparr>xy = p, facecolor = viridis (Finite 1.0), edgecolor = ''white''\<rparr>]"
proof -
  have ex: "plot_cells viridis [] [raw_cell (p, [a, b, t])] 0 4
      = Inr [\<lparr>xy = p, facecolor = threshold_color viridis 0 4 t, edgecolor = ''white''\<rparr>]" for t
    using plot_cells_loop_rule [of 0 4 "[(p, [a, b, t])]" viridis "[]"]
    by (simp add: plot_cells_def colored_patch_def)
  have gen: "intra_low < intra_high \<and> (\<forall>c \<in> set cells. 2 < length (snd c)) \<longrightarrow>
      plot_cells viridis ax (map raw_cell cells) intra_low intra_high
        = Inr (ax @ map (colored_patch viridis intra_low intra_high) cells)"
    unfolding plot_cells_def Let_def using plot_cells_loop_rule by blast
  have "threshold_color viridis 0 4 1.9 = viridis (Finite 0)"
    and "threshold_color viridis 0 4 2.0 = viridis (Finite 0.5)"
    and "threshold_color viridis 0 4 4.0 = viridis (Finite 1.0)"
    by (simp_all add: threshold_color_def)
  with gen ex [of "1.9"] ex [of "2.0"] ex [of "4.0"] show ?thesis
    by simp
qed

theorem plot_cells_threshold_coloring_witness:
  "(0::real) < 4
   \<and> 2 < length [0, 0, 1.9::real] \<and> 2 < length [7, 7, 3::real]
   \<and> plot_cells grey [] (map raw_cell [([[0, 0], [1, 0], [0, 1]], [0, 0, 1.9]), ([], [7, 7, 3])])
         0 4
       = Inr [\<lparr>xy = [[0, 0], [1, 0], [0, 1]], facecolor = (0, 0, 0, 1), edgecolor = ''white''\<rparr>,
              \<lparr>xy = [], facecolor = (0.75, 0.75, 0.75, 1), edgecolor = ''white''\<rparr>]"
  using plot_cells_threshold_coloring
          [of 0 4 "[([[0, 0], [1, 0], [0, 1]], [0, 0, 1.9]), ([], [7, 7, 3])]" grey "[]"]
  by (simp add: colored_patch_def threshold_color_def grey_def)

section \<open>Finding the latest run\<close>

text \<open>
  Claim C5, at a search root with two run directories and a file \<open>notes.txt\<close>: the
  subdirectory with the greatest name is \<open>2024-07-31-T17-34-57\<close>, but
  \<open>get_last_output_path\<close> returns the file, since the glob matches files too.  At a
  search root that holds only a file, nothing is raised although there is no
  subdirectory.
\<close>

theorem get_last_output_path_returns_file:
  "subdirectories disk_stray_file default_search_path
     = [''2024-07-31-T17-34-27'', ''2024-07-31-T17-34-57'']
   \<and> get_last_output_path disk_stray_file default_search_path
     = Inr [''out'', ''cr_trichome'', ''notes.txt'']
   \<and> lookup disk_stray_file [''out'', ''cr_trichome'', ''notes.txt''] = Some (File Other)
   \<and> subdirectories disk_only_file default_search_path = []
   \<and> get_last_output_path disk_only_file default_search_path
     = Inr [''out'', ''cr_trichome'', ''notes.txt'']"
  by (simp add: subdirectories_def disk_stray_file_def disk_only_file_def
      default_search_path_def get_last_output_path_def glob_star_def listdir_def hidden_def)

lemma path_str_append: "path_str (p @ [n]) = path_prefix p @ n"
proof (induction p)
  case Nil
  then show ?case by simp
next
  case (Cons a r)
  obtain b r' where "r @ [n] = b # r'" by (cases "r @ [n]") auto
  with Cons show ?case by simp
qed

lemma append_le_append: "(pre @ a \<le> pre @ b) \<longleftrightarrow> (a \<le> b)" for a b :: string
  by (induction pre) simp_all

lemma sorted_last_max:
  assumes "sorted ys" and "y \<in> set ys"
  shows "y \<le> last ys"
proof -
  from assms(2) obtain i where i: "i < length ys" "ys ! i = y"
    by (auto simp: in_set_conv_nth)
  then have "ys \<noteq> []" by auto
  then have "last ys = ys ! (length ys - 1)" by (rule last_conv_nth)
  with sorted_nth_mono [OF assms(1), of i "length ys - 1"] i show ?thesis by simp
qed

text \<open>
  What \<open>get_last_output_path\<close> does: when the glob matches nothing it raises the
  \<open>ValueError\<close> "No folder found"; otherwise it returns the matched entry whose name is
  lexicographically greatest, whether that entry is a directory or a file.
\<close>

theorem get_last_output_path_maximal_entry:
  "(visible_names disk sp = [] \<longrightarrow> get_last_output_path disk sp = Inl (NoFolderFound sp))
   \<and> (visible_names disk sp \<noteq> [] \<longrightarrow>
        (\<exists>n. get_last_output_path disk sp = Inr (sp @ [n]) \<and> n \<in> set (visible_names disk sp)
           \<and> (\<forall>m \<in> set (visible_names disk sp). m \<le> n)))"
proof (intro conjI impI)
  assume "visible_names disk sp = []"
  then show "get_last_output_path disk sp = Inl (NoFolderFound sp)"
    by (simp add: get_last_output_path_def glob_star_def visible_names_def)
next
  assume ne: "visible_names disk sp \<noteq> []"
  let ?g = "glob_star disk sp"
  let ?s = "sort_key path_str ?g"
  have g: "?g = map (\<lambda>n. sp @ [n]) (visible_names disk sp)"
    by (simp add: glob_star_def visible_names_def)
  with ne have sne: "?s \<noteq> []" by (metis length_sort length_0_conv map_is_Nil_conv)
  then have r: "get_last_output_path disk sp = Inr (last ?s)"
    by (simp add: get_last_output_path_def Let_def)
  have "last ?s \<in> set ?g" using last_in_set [OF sne] by simp
  then obtain n where n: "last ?s = sp @ [n]" "n \<in> set (visible_names disk sp)"
    using g by auto
  have "m \<le> n" if "m \<in> set (visible_names disk sp)" for m
  proof -
    have "path_str (sp @ [m]) \<in> set (map path_str ?s)" using that g by auto
    moreover have "sorted (map path_str ?s)" by (rule sorted_sort_key)
    ultimately have "path_str (sp @ [m]) \<le> last (map path_str ?s)" by (rule sorted_last_max [rotated])
    also have "last (map path_str ?s) = path_str (last ?s)" using sne by (rule last_map)
    finally show ?thesis using n(1) by (simp add: path_str_append append_le_append)
  qed
  with r n show "\<exists>n. get_last_output_path disk sp = Inr (sp @ [n]) \<and> n \<in> set (visible_names disk sp)
           \<and> (\<forall>m \<in> set (visible_names disk sp). m \<le> n)"
    by auto
qed

theorem get_last_output_path_maximal_entry_witness:
  "visible_names disk_stray_file default_search_path
      = [''2024-07-31-T17-34-27'', ''2024-07-31-T17-34-57'', ''notes.txt'']
   \<and> get_last_output_path disk_stray_file default_search_path
      = Inr (default_search_path @ [''notes.txt''])
   \<and> ''2024-07-31-T17-34-57'' \<le> ''notes.txt''
   \<and> visible_names (Dir []) default_search_path = []
   \<and> get_last_output_path (Dir []) default_search_path = Inl (NoFolderFound default_search_path)"
proof -
  have v: "visible_names disk_stray_file default_search_path
      = [''2024-07-31-T17-34-27'', ''2024-07-31-T17-34-57'', ''notes.txt'']"
    by (simp add: visible_names_def disk_stray_file_def default_search_path_def listdir_def
        hidden_def)
  have e: "visible_names (Dir []) default_search_path = []"
    by (simp add: visible_names_def default_search_path_def listdir_def)
  from get_last_output_path_maximal_entry [of disk_stray_file default_search_path] v
  obtain n where n: "get_last_output_path disk_stray_file default_search_path
                       = Inr (default_search_path @ [n])"
    "n \<in> set [''2024-07-31-T17-34-27'', ''2024-07-31-T17-34-57'', ''notes.txt'']"
    "\<forall>m \<in> set [''2024-07-31-T17-34-27'', ''2024-07-31-T17-34-57'', ''notes.txt'']. m \<le> n"
    by auto
  then have "''notes.txt'' \<le> n" "''2024-07-31-T17-34-57'' \<le> n" by simp_all
  with n(2) have "n = ''notes.txt''" by auto
  with n get_last_output_path_maximal_entry [of "Dir []" default_search_path] v e
  show ?thesis by simp
qed

section \<open>Listing the iterations\<close>

lemma first_error_map_Inr: "first_error (map Inr xs) = Inr xs"
  by (induction xs) simp_all

lemma py_int_3: "py_int ''00000000000000000003'' = Inr 3"
  by (simp add: py_int_def strip_def py_isspace_def is_digit_def digits_value_def
      digit_value_def)

lemma py_int_1: "py_int ''00000000000000000001'' = Inr 1"
  by (simp add: py_int_def strip_def py_isspace_def is_digit_def digits_value_def
      digit_value_def)

lemma get_all_iterations_sorted:
  assumes "map py_int (iteration_names (fs s) run) = map Inr ints"
  shows "get_all_iterations (Some run) s = (Inr (sort ints), s)"
proof -
  have "map (\<lambda>f. py_int (name f)) (glob_star (fs s) (run @ [''cells'', ''json'']))
          = map Inr ints"
    using assms by (simp add: iteration_names_def comp_def)
  then show ?thesis
    by (simp add: get_all_iterations_def resolve_def first_error_map_Inr)
qed

text \<open>
  Claim C6 as stated fails: the names \<open>00000000000000000001\<close> and \<open>1\<close> both parse to 1,
  and \<open>get_all_iterations\<close> returns \<open>[1, 1]\<close>, which is not strictly ascending, without
  raising anything.
\<close>

theorem get_all_iterations_keeps_duplicates:
  "iteration_names disk_duplicate [''run''] = [''00000000000000000001'', ''1'']
   \<and> get_all_iterations (Some [''run'']) \<lparr>fs = disk_duplicate, trace = []\<rparr>
       = (Inr [1, 1], \<lparr>fs = disk_duplicate, trace = []\<rparr>)
   \<and> \<not> sorted_wrt (<) [1, 1 :: int]"
  by (simp add: iteration_names_def disk_duplicate_def get_all_iterations_def resolve_def
      glob_star_def listdir_def hidden_def name_def py_int_def strip_def py_isspace_def
      is_digit_def digits_value_def digit_value_def)

text \<open>
  Claim C6 as amended.  When every matched name below \<open>cells/json\<close> parses, the result is
  the parsed integers sorted ascending, duplicates kept (the same multiset); when the
  parsed integers are distinct it is strictly ascending and equal to them as a set.  For
  the names \<open>00000000000000000003\<close>, \<open>00000000000000000001\<close> the result is \<open>[1, 3]\<close>.
\<close>

theorem get_all_iterations_ascending:
  "(map py_int (iteration_names (fs s) run) = map Inr ints \<longrightarrow>
      (\<exists>its. get_all_iterations (Some run) s = (Inr its, s)
         \<and> sorted its \<and> mset its = mset ints
         \<and> (distinct ints \<longrightarrow> sorted_wrt (<) its \<and> set its = set ints)))
   \<and> (iteration_names (fs s) run = [''00000000000000000003'', ''00000000000000000001'']
        \<longrightarrow> get_all_iterations (Some run) s = (Inr [1, 3], s))"
proof (intro conjI impI)
  assume a: "map py_int (iteration_names (fs s) run) = map Inr ints"
  have "distinct ints \<Longrightarrow> sorted_wrt (<) (sort ints)"
    by (simp add: strict_sorted_iff)
  with get_all_iterations_sorted [OF a]
  show "\<exists>its. get_all_iterations (Some run) s = (Inr its, s)
         \<and> sorted its \<and> mset its = mset ints
         \<and> (distinct ints \<longrightarrow> sorted_wrt (<) its \<and> set its = set ints)"
    by simp
next
  assume "iteration_names (fs s) run = [''00000000000000000003'', ''00000000000000000001'']"
  then have "map py_int (iteration_names (fs s) run) = map Inr [3, 1]"
    by (simp add: py_int_3 py_int_1)
  from get_all_iterations_sorted [OF this]
  show "get_all_iterations (Some run) s = (Inr [1, 3], s)" by simp
qed

theorem get_all_iterations_ascending_witness:
  "iteration_names disk_two_iterations [''run'']
     = [''00000000000000000003'', ''00000000000000000001'']
   \<and> map py_int (iteration_names disk_two_iterations [''run'']) = map Inr [3, 1]
   \<and> distinct [3, 1 :: int]
   \<and> get_all_iterations (Some [''run'']) \<lparr>fs = disk_two_iterations, trace = []\<rparr>
       = (Inr [1, 3], \<lparr>fs = disk_two_iterations, trace = []\<rparr>)"
proof -
  have n: "iteration_names (fs \<lparr>fs = disk_two_iterations, trace = []\<rparr>) [''run'']
             = [''00000000000000000003'', ''00000000000000000001'']"
    by (simp add: iteration_names_def disk_two_iterations_def glob_star_def listdir_def
        hidden_def name_def)
  from get_all_iterations_ascending
         [of "\<lparr>fs = disk_two_iterations, trace = []\<rparr>" "[''run'']" "[3, 1]"] n
  show ?thesis by (simp add: py_int_3 py_int_1)
qed

section \<open>Loading the cells of one iteration\<close>

lemma format_020_1: "format_020 1 = ''00000000000000000001''"
  by code_simp

lemmas load_eval = load_cells_def resolve_def read_results_def glob_json_def listdir_def hidden_def
  ends_with_def read_shard_def column_def reshape_points_def np_array_def reshape_2_rows_def T_def
  format_020_1 shard_disk_def

lemma load_cells_Some:
  "load_cells iteration (Some op) s =
     (let s2 = s\<lparr>trace := trace s @ [Load iteration op]\<rparr>
      in case read_results (fs s) op iteration of
           Inl e \<Rightarrow> (Inl e, s2)
         | Inr results \<Rightarrow>
             (case column results ''cell.mechanics.points'' of
                Inl e \<Rightarrow> (Inl e, s2)
              | Inr xs \<Rightarrow>
                  (case first_error (map reshape_points xs) of
                     Inl e \<Rightarrow> (Inl e, s2)
                   | Inr pts \<Rightarrow>
                       (case column results ''cell.intracellular'' of
                          Inl e \<Rightarrow> (Inl e, s2)
                        | Inr ys \<Rightarrow>
                            (Inr (map2 (\<lambda>p y. \<lparr>points = p, intracellular = np_array y\<rparr>)
                                    pts ys), s2)))))"
  by (simp add: load_cells_def resolve_def Let_def)

lemma first_error_Inl_mem: "first_error rs = Inl e \<Longrightarrow> Inl e \<in> set rs"
  by (induction rs rule: first_error.induct) (auto split: sum.splits)

lemma first_error_Inl_ex: "Inl e \<in> set rs \<Longrightarrow> \<exists>e'. first_error rs = Inl e'"
  by (induction rs rule: first_error.induct) (auto split: sum.splits)

lemma first_error_Inr_length: "first_error rs = Inr vs \<Longrightarrow> rs = map Inr vs"
  by (induction rs arbitrary: vs rule: first_error.induct) (auto split: sum.splits)

lemma first_error_all_Inr:
  "\<forall>r \<in> set rs. \<exists>v. r = Inr v \<Longrightarrow> \<exists>vs. first_error rs = Inr vs \<and> length vs = length rs"
  by (induction rs rule: first_error.induct) (auto split: sum.splits)

lemma reshape_points_error: "reshape_points x = Inl e \<Longrightarrow> e = ReshapeError"
  by (auto simp: reshape_points_def reshape_2_rows_def np_array_def Let_def
      split: option.splits if_splits sum.splits ndarray.splits)

lemma reshape_points_odd: "odd (length x) \<Longrightarrow> reshape_points (Some x) = Inl ReshapeError"
  by (simp add: reshape_points_def reshape_2_rows_def np_array_def odd_iff_mod_2_eq_one)

lemma reshape_points_even_ok: "even (length x) \<Longrightarrow> \<exists>p. reshape_points (Some x) = Inr p"
  by (simp add: reshape_points_def reshape_2_rows_def np_array_def Let_def)

lemma column_present:
  "r \<in> set df \<Longrightarrow> map_of r c = Some x \<Longrightarrow> column df c = Inr (map (\<lambda>r. map_of r c) df)"
  by (auto simp: column_def list_ex_iff dest!: map_of_SomeD) (metis fst_conv image_iff)

lemma column_absent:
  "\<forall>r \<in> set df. map_of r c = None \<Longrightarrow> column df c = Inl (KeyError c)"
  by (auto simp: column_def list_ex_iff map_of_eq_None_iff)

lemma load_cells_odd_points:
  assumes "read_results (fs s) op iteration = Inr results"
    and "r \<in> set results" and "map_of r ''cell.mechanics.points'' = Some x"
    and "odd (length x)"
  shows "load_cells iteration (Some op) s
           = (Inl ReshapeError, s\<lparr>trace := trace s @ [Load iteration op]\<rparr>)"
proof -
  let ?xs = "map (\<lambda>r. map_of r ''cell.mechanics.points'') results"
  have col: "column results ''cell.mechanics.points'' = Inr ?xs"
    using assms(2,3) by (rule column_present)
  have "Inl ReshapeError \<in> set (map reshape_points ?xs)"
    using assms(2,3,4) reshape_points_odd [of x] by force
  then obtain e where e: "first_error (map reshape_points ?xs) = Inl e"
    using first_error_Inl_ex by blast
  then have "Inl e \<in> set (map reshape_points ?xs)"
    by (rule first_error_Inl_mem)
  then have "e = ReshapeError"
    using reshape_points_error by (metis (no_types, lifting) in_set_conv_nth length_map nth_map)
  with e col assms(1) show ?thesis
    by (simp add: load_cells_Some)
qed

lemma item_error: "item a i = Inl e \<Longrightarrow> e = IndexError"
  by (auto simp: item_def split: ndarray.splits if_splits)

lemma plot_cells_body_error:
  "plot_cells_body viridis thresh lo hi ax c = Inl e \<Longrightarrow> e = IndexError"
  by (auto simp: plot_cells_body_def Let_def split: sum.splits dest: item_error)

lemma plot_cells_loop_short:
  assumes "c \<in> set cells" and "short_vector (intracellular c)"
  shows "plot_cells_loop viridis thresh lo hi ax cells = Inl IndexError"
  using assms
proof (induction cells arbitrary: ax)
  case Nil
  then show ?case by simp
next
  case (Cons d cells)
  show ?case
  proof (cases "plot_cells_body viridis thresh lo hi ax d")
    case (Inl e)
    then show ?thesis using plot_cells_body_error [OF Inl] by simp
  next
    case (Inr ax')
    then have "d \<noteq> c"
      using Cons.prems(2)
      by (auto simp: plot_cells_body_def item_def short_vector_def split: ndarray.splits if_splits)
    with Cons Inr show ?thesis by simp
  qed
qed

lemma load_cells_keeps_vectors:
  assumes "read_results (fs s) op iteration = Inr results" and "results \<noteq> []"
    and "\<forall>r \<in> set results. \<exists>x. map_of r ''cell.mechanics.points'' = Some x \<and> even (length x)"
    and "\<forall>r \<in> set results. \<exists>y. map_of r ''cell.intracellular'' = Some y"
  shows "\<exists>cells. load_cells iteration (Some op) s
                    = (Inr cells, s\<lparr>trace := trace s @ [Load iteration op]\<rparr>)
           \<and> map intracellular cells
               = map (\<lambda>r. np_array (map_of r ''cell.intracellular'')) results"
proof -
  let ?xs = "map (\<lambda>r. map_of r ''cell.mechanics.points'') results"
  let ?ys = "map (\<lambda>r. map_of r ''cell.intracellular'') results"
  obtain r0 where r0: "r0 \<in> set results" using assms(2) by (cases results) auto
  have col: "column results ''cell.mechanics.points'' = Inr ?xs"
    using r0 assms(3) column_present by blast
  have col2: "column results ''cell.intracellular'' = Inr ?ys"
    using r0 assms(4) column_present by blast
  have "\<forall>q \<in> set (map reshape_points ?xs). \<exists>v. q = Inr v"
    using assms(3) reshape_points_even_ok by fastforce
  then obtain pts where pts: "first_error (map reshape_points ?xs) = Inr pts"
    and len: "length pts = length results"
    using first_error_all_Inr by fastforce
  have "map intracellular (map2 (\<lambda>p y. \<lparr>points = p, intracellular = np_array y\<rparr>) pts ?ys)
          = map (\<lambda>r. np_array (map_of r ''cell.intracellular'')) results"
    using len by (intro nth_equalityI) auto
  with col col2 pts assms(1) show ?thesis
    by (simp add: load_cells_Some)
qed

lemma load_cells_no_points:
  assumes "read_results (fs s) op iteration = Inr results"
    and "\<forall>r \<in> set results. map_of r ''cell.mechanics.points'' = None"
  shows "load_cells iteration (Some op) s
           = (Inl (KeyError ''cell.mechanics.points''), s\<lparr>trace := trace s @ [Load iteration op]\<rparr>)"
  using assms by (simp add: load_cells_Some column_absent)

lemma read_results_no_files:
  "glob_json disk (op @ [''cells'', ''json'', format_020 iteration]) = [] \<Longrightarrow> read_results disk op iteration = Inr []"
  by (simp add: read_results_def)

lemma plot_cells_at_iter_Some:
  "plot_cells_at_iter viridis iteration lo hi (Some op) save_path overwrite transparent s =
     (case mkdir_parents (fs s) (snapshot_dir op save_path) of
        Inl e \<Rightarrow> (Inl e, s)
      | Inr disk2 \<Rightarrow>
          (let s2 = s\<lparr>fs := disk2\<rparr>;
               target = snapshot_path op save_path iteration
           in if exists disk2 target \<and> \<not> overwrite then (Inr target, s2)
              else case load_cells iteration (Some op) s2 of
                     (Inl e, s3) \<Rightarrow> (Inl e, s3)
                   | (Inr cells, s3) \<Rightarrow>
                       (let s4 = s3\<lparr>trace := trace s3 @ [Render iteration]\<rparr>
                        in case plot_cells viridis [] cells lo hi of
                             Inl e \<Rightarrow> (Inl e, s4)
                           | Inr ax \<Rightarrow>
                               (case write_file (fs s4) target (Png ax transparent) of
                                  Inl e \<Rightarrow> (Inl e, s4)
                                | Inr disk5 \<Rightarrow> (Inr target, s4\<lparr>fs := disk5\<rparr>)))))"
  by (simp add: plot_cells_at_iter_def resolve_def Let_def split: sum.splits)

lemma render_odd_points:
  assumes "mkdir_parents (fs s) (snapshot_dir op save_path) = Inr disk2"
    and "overwrite \<or> \<not> exists disk2 (snapshot_path op save_path iteration)"
    and "read_results disk2 op iteration = Inr results"
    and "r \<in> set results" and "map_of r ''cell.mechanics.points'' = Some x"
    and "odd (length x)"
  shows "fst (plot_cells_at_iter viridis iteration lo hi (Some op) save_path overwrite
                transparent s) = Inl ReshapeError"
proof -
  have "load_cells iteration (Some op) (s\<lparr>fs := disk2\<rparr>)
          = (Inl ReshapeError, s\<lparr>fs := disk2, trace := trace s @ [Load iteration op]\<rparr>)"
    using load_cells_odd_points [of "s\<lparr>fs := disk2\<rparr>" op iteration results r x] assms(3-6)
    by simp
  with assms(1,2) show ?thesis
    by (auto simp: plot_cells_at_iter_Some Let_def)
qed

lemma render_short_vector:
  assumes "mkdir_parents (fs s) (snapshot_dir op save_path) = Inr disk2"
    and "overwrite \<or> \<not> exists disk2 (snapshot_path op save_path iteration)"
    and "read_results disk2 op iteration = Inr results"
    and "\<forall>r \<in> set results. \<exists>x. map_of r ''cell.mechanics.points'' = Some x \<and> even (length x)"
    and "\<forall>r \<in> set results. \<exists>y. map_of r ''cell.intracellular'' = Some y"
    and "r \<in> set results" and "map_of r ''cell.intracellular'' = Some y" and "length y < 3"
  shows "fst (plot_cells_at_iter viridis iteration lo hi (Some op) save_path overwrite
                transparent s) = Inl IndexError"
proof -
  have ne: "results \<noteq> []" using assms(6) by auto
  obtain cells where l: "load_cells iteration (Some op) (s\<lparr>fs := disk2\<rparr>)
          = (Inr cells, s\<lparr>fs := disk2, trace := trace s @ [Load iteration op]\<rparr>)"
    and m: "map intracellular cells
              = map (\<lambda>r. np_array (map_of r ''cell.intracellular'')) results"
    using load_cells_keeps_vectors [of "s\<lparr>fs := disk2\<rparr>" op iteration results]
      assms(3-5) ne by auto
  have "Vector y \<in> set (map intracellular cells)"
    using assms(6,7) unfolding m by (force simp: np_array_def)
  then obtain c where c: "c \<in> set cells" "intracellular c = Vector y" by auto
  then have "short_vector (intracellular c)"
    using assms(8) by (simp add: short_vector_def)
  with c(1) have "plot_cells viridis [] cells lo hi = Inl IndexError"
    by (simp add: plot_cells_def plot_cells_loop_short)
  with l assms(1,2) show ?thesis
    by (auto simp: plot_cells_at_iter_Some Let_def)
qed

lemma mkdir_images:
  "mkdir_parents (shard_disk files) (snapshot_dir [''run''] None) = Inr (shard_disk_images files)"
  by (simp add: shard_disk_def shard_disk_images_def snapshot_dir_def)

lemma no_snapshot:
  "\<not> exists (shard_disk_images files) (snapshot_path [''run''] None 1)"
  by (simp add: exists_def shard_disk_images_def snapshot_path_def snapshot_dir_def)

lemma read_one_shard:
  "read_results (shard_disk_images [(''a.json'', File (Shard [[r]]))]) [''run''] 1 = Inr [r]"
  "read_results (shard_disk [(''a.json'', File (Shard [[r]]))]) [''run''] 1 = Inr [r]"
  by (simp_all add: read_results_def glob_json_def listdir_def shard_disk_images_def shard_disk_def
      format_020_1 hidden_def ends_with_def read_shard_def)

text \<open>
  Claim C8 as stated fails: an iteration without any shard file makes \<open>load_cells\<close> raise
  the \<open>KeyError\<close> of the missing column \<open>cell.mechanics.points\<close>, and so does an iteration
  whose only record lacks the points field, a structural defect.  The two are the same
  error; there is no error of its own for the empty iteration.
\<close>

theorem empty_iteration_not_distinct:
  "load_cells 1 (Some [''run'']) \<lparr>fs = disk_empty_iteration, trace = []\<rparr>
     = (Inl (KeyError ''cell.mechanics.points''),
        \<lparr>fs = disk_empty_iteration, trace = [Load 1 [''run'']]\<rparr>)
   \<and> load_cells 1 (Some [''run'']) \<lparr>fs = disk_no_points, trace = []\<rparr>
     = (Inl (KeyError ''cell.mechanics.points''),
        \<lparr>fs = disk_no_points, trace = [Load 1 [''run'']]\<rparr>)"
  by (simp add: load_eval disk_empty_iteration_def disk_no_points_def)

text \<open>
  Claim C8 as amended.  When the loader finds no shard file for the iteration, or reads
  its shards and finds no record, or finds only records without the points field,
  \<open>load_cells\<close> fails with \<open>KeyError\<close> for the column \<open>cell.mechanics.points\<close>, after
  logging the load.
\<close>

theorem load_cells_empty_iteration:
  "(glob_json (fs s) (op @ [''cells'', ''json'', format_020 iteration]) = [] \<longrightarrow>
      load_cells iteration (Some op) s
        = (Inl (KeyError ''cell.mechanics.points''),
           s\<lparr>trace := trace s @ [Load iteration op]\<rparr>))
   \<and> (read_results (fs s) op iteration = Inr results
        \<and> (\<forall>r \<in> set results. map_of r ''cell.mechanics.points'' = None) \<longrightarrow>
      load_cells iteration (Some op) s
        = (Inl (KeyError ''cell.mechanics.points''),
           s\<lparr>trace := trace s @ [Load iteration op]\<rparr>))"
  using load_cells_no_points [of s op iteration results]
    load_cells_no_points [of s op iteration "[]"] read_results_no_files [of "fs s" op iteration]
  by simp


theorem load_cells_empty_iteration_witness:
  "glob_json disk_empty_iteration ([''run''] @ [''cells'', ''json'', format_020 1]) = []
   \<and> read_results disk_no_points [''run''] 1 = Inr [[(''cell.intracellular'', [1, 2, 3])]]
   \<and> map_of [(''cell.intracellular'', [1, 2, 3::real])] ''cell.mechanics.points'' = None
   \<and> load_cells 1 (Some [''run'']) \<lparr>fs = disk_empty_iteration, trace = []\<rparr>
        = (Inl (KeyError ''cell.mechanics.points''),
           \<lparr>fs = disk_empty_iteration, trace = [Load 1 [''run'']]\<rparr>)
   \<and> load_cells 1 (Some [''run'']) \<lparr>fs = disk_no_points, trace = []\<rparr>
        = (Inl (KeyError ''cell.mechanics.points''),
           \<lparr>fs = disk_no_points, trace = [Load 1 [''run'']]\<rparr>)"
proof -
  have g: "glob_json disk_empty_iteration ([''run''] @ [''cells'', ''json'', format_020 1]) = []"
    by (simp add: glob_json_def listdir_def disk_empty_iteration_def shard_disk_def format_020_1)
  have r: "read_results disk_no_points [''run''] 1 = Inr [[(''cell.intracellular'', [1, 2, 3])]]"
    by (simp add: read_results_def glob_json_def listdir_def disk_no_points_def shard_disk_def
        format_020_1 hidden_def ends_with_def read_shard_def)
  from load_cells_empty_iteration [of "\<lparr>fs = disk_empty_iteration, trace = []\<rparr>" "[''run'']" 1 "[]"]
    load_cells_empty_iteration [of "\<lparr>fs = disk_no_points, trace = []\<rparr>" "[''run'']" 1
          "[[(''cell.intracellular'', [1, 2, 3])]]"] g r
  show ?thesis by simp
qed


text \<open>
  Claim C9 as stated fails: a record whose intracellular vector has two components is
  loaded without error.
\<close>

theorem load_cells_accepts_short_vector:
  "load_cells 1 (Some [''run'']) \<lparr>fs = disk_short_vector, trace = []\<rparr>
     = (Inr [\<lparr>points = [[0, 0], [1, 0], [0, 1]], intracellular = Vector [1, 2]\<rparr>],
        \<lparr>fs = disk_short_vector, trace = [Load 1 [''run'']]\<rparr>)"
  by (simp add: load_eval disk_short_vector_def upt_rec)

text \<open>
  Claim C9 as amended.  A record with an odd number of coordinates makes \<open>load_cells\<close>
  fail with the \<open>ValueError\<close> of the reshape, and with it the render of that iteration.
  The length of the intracellular vector is not checked by the load: records with
  even coordinate arrays load, whatever the length of their vectors; a vector with fewer
  than three components then makes the render of that iteration fail with \<open>IndexError\<close>,
  when \<open>plot_cells\<close> reads component 2.
\<close>

theorem malformed_record_failures:
  "(read_results (fs s) op iteration = Inr results \<and> r \<in> set results
      \<and> map_of r ''cell.mechanics.points'' = Some x \<and> odd (length x) \<longrightarrow>
        load_cells iteration (Some op) s
          = (Inl ReshapeError, s\<lparr>trace := trace s @ [Load iteration op]\<rparr>))
   \<and> (mkdir_parents (fs s) (snapshot_dir op save_path) = Inr disk2
      \<and> (overwrite \<or> \<not> exists disk2 (snapshot_path op save_path iteration))
      \<and> read_results disk2 op iteration = Inr results \<and> r \<in> set results
      \<and> map_of r ''cell.mechanics.points'' = Some x \<and> odd (length x) \<longrightarrow>
        fst (plot_cells_at_iter viridis iteration lo hi (Some op) save_path overwrite
               transparent s) = Inl ReshapeError)
   \<and> (read_results (fs s) op iteration = Inr results \<and> results \<noteq> []
      \<and> (\<forall>r \<in> set results. \<exists>x. map_of r ''cell.mechanics.points'' = Some x \<and> even (length x))
      \<and> (\<forall>r \<in> set results. \<exists>y. map_of r ''cell.intracellular'' = Some y) \<longrightarrow>
        (\<exists>cells. load_cells iteration (Some op) s
                    = (Inr cells, s\<lparr>trace := trace s @ [Load iteration op]\<rparr>)
           \<and> map intracellular cells
               = map (\<lambda>r. np_array (map_of r ''cell.intracellular'')) results))
   \<and> (mkdir_parents (fs s) (snapshot_dir op save_path) = Inr disk2
      \<and> (overwrite \<or> \<not> exists disk2 (snapshot_path op save_path iteration))
      \<and> read_results disk2 op iteration = Inr results
      \<and> (\<forall>r \<in> set results. \<exists>x. map_of r ''cell.mechanics.points'' = Some x \<and> even (length x))
      \<and> (\<forall>r \<in> set results. \<exists>y. map_of r ''cell.intracellular'' = Some y)
      \<and> r \<in> set results \<and> map_of r ''cell.intracellular'' = Some y \<and> length y < 3 \<longrightarrow>
        fst (plot_cells_at_iter viridis iteration lo hi (Some op) save_path overwrite
               transparent s) = Inl IndexError)"
proof (intro conjI impI)
  assume "read_results (fs s) op iteration = Inr results \<and> r \<in> set results
      \<and> map_of r ''cell.mechanics.points'' = Some x \<and> odd (length x)"
  then show "load_cells iteration (Some op) s
          = (Inl ReshapeError, s\<lparr>trace := trace s @ [Load iteration op]\<rparr>)"
    using load_cells_odd_points by blast
next
  assume "mkdir_parents (fs s) (snapshot_dir op save_path) = Inr disk2
      \<and> (overwrite \<or> \<not> exists disk2 (snapshot_path op save_path iteration))
      \<and> read_results disk2 op iteration = Inr results \<and> r \<in> set results
      \<and> map_of r ''cell.mechanics.points'' = Some x \<and> odd (length x)"
  then show "fst (plot_cells_at_iter viridis iteration lo hi (Some op) save_path overwrite
               transparent s) = Inl ReshapeError"
    using render_odd_points by blast
next
  assume "read_results (fs s) op iteration = Inr results \<and> results \<noteq> []
      \<and> (\<forall>r \<in> set results. \<exists>x. map_of r ''cell.mechanics.points'' = Some x \<and> even (length x))
      \<and> (\<forall>r \<in> set results. \<exists>y. map_of r ''cell.intracellular'' = Some y)"
  then show "\<exists>cells. load_cells iteration (Some op) s
                    = (Inr cells, s\<lparr>trace := trace s @ [Load iteration op]\<rparr>)
           \<and> map intracellular cells
               = map (\<lambda>r. np_array (map_of r ''cell.intracellular'')) results"
    using load_cells_keeps_vectors by blast
next
  assume "mkdir_parents (fs s) (snapshot_dir op save_path) = Inr disk2
      \<and> (overwrite \<or> \<not> exists disk2 (snapshot_path op save_path iteration))
      \<and> read_results disk2 op iteration = Inr results
      \<and> (\<forall>r \<in> set results. \<exists>x. map_of r ''cell.mechanics.points'' = Some x \<and> even (length x))
      \<and> (\<forall>r \<in> set results. \<exists>y. map_of r ''cell.intracellular'' = Some y)
      \<and> r \<in> set results \<and> map_of r ''cell.intracellular'' = Some y \<and> length y < 3"
  then show "fst (plot_cells_at_iter viridis iteration lo hi (Some op) save_path overwrite
               transparent s) = Inl IndexError"
    using render_short_vector [of s op save_path disk2 overwrite iteration results r y] by blast
qed

theorem malformed_record_failures_witness:
  "read_results disk_odd_points [''run''] 1 = Inr [row_odd]
   \<and> map_of row_odd ''cell.mechanics.points'' = Some [0, 1, 0, 0, 0]
   \<and> load_cells 1 (Some [''run'']) \<lparr>fs = disk_odd_points, trace = []\<rparr>
        = (Inl ReshapeError, \<lparr>fs = disk_odd_points, trace = [Load 1 [''run'']]\<rparr>)
   \<and> fst (plot_cells_at_iter grey 1 0 4 (Some [''run'']) None False True
             \<lparr>fs = disk_odd_points, trace = []\<rparr>) = Inl ReshapeError
   \<and> read_results disk_short_vector [''run''] 1 = Inr [row_short]
   \<and> map_of row_short ''cell.intracellular'' = Some [1, 2]
   \<and> (\<exists>cells. load_cells 1 (Some [''run'']) \<lparr>fs = disk_short_vector, trace = []\<rparr>
                 = (Inr cells, \<lparr>fs = disk_short_vector, trace = [Load 1 [''run'']]\<rparr>)
          \<and> map intracellular cells = [Vector [1, 2]])
   \<and> fst (plot_cells_at_iter grey 1 0 4 (Some [''run'']) None False True
             \<lparr>fs = disk_short_vector, trace = []\<rparr>) = Inl IndexError"
proof -
  let ?so = "\<lparr>fs = disk_odd_points, trace = []\<rparr>"
  let ?ss = "\<lparr>fs = disk_short_vector, trace = []\<rparr>"
  have ro: "read_results disk_odd_points [''run''] 1 = Inr [row_odd]"
    and rs: "read_results disk_short_vector [''run''] 1 = Inr [row_short]"
    by (simp_all add: disk_odd_points_def disk_short_vector_def row_odd_def row_short_def
        read_one_shard)
  have mo: "mkdir_parents (fs ?so) (snapshot_dir [''run''] None)
              = Inr (shard_disk_images [(''a.json'', File (Shard [[row_odd]]))])"
    and ms: "mkdir_parents (fs ?ss) (snapshot_dir [''run''] None)
              = Inr (shard_disk_images [(''a.json'', File (Shard [[row_short]]))])"
    by (simp_all add: disk_odd_points_def disk_short_vector_def row_odd_def row_short_def
        mkdir_images)
  have po: "map_of row_odd ''cell.mechanics.points'' = Some [0, 1, 0, 0, 0]"
    and io: "map_of row_odd ''cell.intracellular'' = Some [1, 2, 3]"
    and ps: "map_of row_short ''cell.mechanics.points'' = Some [0, 1, 0, 0, 0, 1]"
    and isv: "map_of row_short ''cell.intracellular'' = Some [1, 2]"
    by (simp_all add: row_odd_def row_short_def)
  note odd = malformed_record_failures [of ?so "[''run'']" 1 "[row_odd]" row_odd "[0, 1, 0, 0, 0]" None
      "shard_disk_images [(''a.json'', File (Shard [[row_odd]]))]" False grey 0 4 True]
  note short = malformed_record_failures [of ?ss "[''run'']" 1 "[row_short]" row_short _ None
      "shard_disk_images [(''a.json'', File (Shard [[row_short]]))]" False grey 0 4 True "[1, 2]"]
  have 1: "load_cells 1 (Some [''run'']) ?so
        = (Inl ReshapeError, \<lparr>fs = disk_odd_points, trace = [Load 1 [''run'']]\<rparr>)"
    using odd ro po by simp
  have 2: "fst (plot_cells_at_iter grey 1 0 4 (Some [''run'']) None False True ?so)
             = Inl ReshapeError"
    using odd mo po no_snapshot read_one_shard(1) by simp
  have 3: "\<exists>cells. load_cells 1 (Some [''run'']) ?ss
                 = (Inr cells, \<lparr>fs = disk_short_vector, trace = [Load 1 [''run'']]\<rparr>)
          \<and> map intracellular cells = [Vector [1, 2]]"
    using short rs ps isv by (simp add: np_array_def)
  have 4: "fst (plot_cells_at_iter grey 1 0 4 (Some [''run'']) None False True ?ss)
             = Inl IndexError"
    using short ms ps isv no_snapshot read_one_shard(1) by simp
  from ro rs po isv 1 2 3 4 show ?thesis by blast
qed

section \<open>The file system\<close>

lemma lookup_append:
  "lookup d (p @ q) = (case lookup d p of None \<Rightarrow> None | Some n \<Rightarrow> lookup n q)"
proof (induction p arbitrary: d)
  case Nil
  then show ?case by simp
next
  case (Cons x xs)
  then show ?case by (cases d) (auto split: option.splits)
qed

lemma exists_parent_Dir:
  assumes "exists d (p @ [x])"
  shows "\<exists>es. lookup d p = Some (Dir es)"
proof -
  from assms obtain n where n: "lookup d p = Some n" and "lookup n [x] \<noteq> None"
    by (auto simp: exists_def lookup_append split: option.splits)
  then show ?thesis by (cases n) auto
qed

lemma exists_prefix: "exists d (p @ q) \<Longrightarrow> exists d p"
  by (auto simp: exists_def lookup_append split: option.splits)

lemma mkdir_parents_existing: "lookup d p = Some (Dir es) \<Longrightarrow> mkdir_parents d p = Inr d"
proof (induction p arbitrary: d)
  case Nil
  then show ?case by simp
next
  case (Cons x xs)
  then show ?case
    by (cases d) (auto split: option.splits simp: AList.update_triv)
qed

lemma mkdir_parents_creates: "mkdir_parents d p = Inr d' \<Longrightarrow> \<exists>es. lookup d' p = Some (Dir es)"
proof (induction p arbitrary: d d')
  case Nil
  then show ?case by (cases d) auto
next
  case (Cons x xs)
  then show ?case
    by (cases d) (auto split: option.splits sum.splits simp: AList.update_conv')
qed

lemma write_file_written: "write_file d p c = Inr d' \<Longrightarrow> lookup d' p = Some (File c)"
proof (induction p arbitrary: d d')
  case Nil
  then show ?case by (cases d) auto
next
  case (Cons x xs)
  then show ?case
    by (cases d) (auto split: option.splits sum.splits if_splits simp: AList.update_conv')
qed

lemma update_keys_subset: "fst ` set es \<subseteq> fst ` set (AList.update x n es)"
  by (auto simp: AList.dom_update)

lemma mkdir_parents_Dir_names:
  assumes "mkdir_parents (Dir es) p = Inr d'"
  shows "\<exists>es'. d' = Dir es' \<and> fst ` set es \<subseteq> fst ` set es'"
proof (cases p)
  case Nil
  with assms show ?thesis by auto
next
  case (Cons x xs)
  with assms obtain n' where "d' = Dir (AList.update x n' es)"
    by (auto split: sum.splits)
  then show ?thesis by (simp add: update_keys_subset)
qed

lemma write_file_Dir_names:
  assumes "write_file (Dir es) p c = Inr d'"
  shows "\<exists>es'. d' = Dir es' \<and> fst ` set es \<subseteq> fst ` set es'"
proof (cases p)
  case Nil
  with assms show ?thesis by auto
next
  case (Cons x xs)
  with assms obtain n' where "d' = Dir (AList.update x n' es)"
    by (auto split: sum.splits option.splits if_splits)
  then show ?thesis by (simp add: update_keys_subset)
qed

lemma update_keys_present:
  "map_of es x = Some n \<Longrightarrow> map fst (AList.update x n' es) = map fst es"
  by (auto simp: AList.update_keys dest!: map_of_SomeD intro: rev_image_eqI)

lemma listdir_Nil: "listdir (Dir es) [] = map fst es"
  by (simp add: listdir_def)

lemma listdir_Cons:
  "listdir (Dir es) (y # qs) = (case map_of es y of None \<Rightarrow> [] | Some n \<Rightarrow> listdir n qs)"
  by (simp add: listdir_def split: option.splits)

lemma listdir_File: "listdir (File c) q = []"
  by (cases q) (simp_all add: listdir_def)

lemma listdir_mkdir_mono:
  "mkdir_parents d p = Inr d' \<Longrightarrow> set (listdir d q) \<subseteq> set (listdir d' q)"
proof (induction q arbitrary: d d' p)
  case Nil
  show ?case
  proof (cases d)
    case (File c)
    then show ?thesis by (simp add: listdir_File)
  next
    case (Dir es)
    with Nil mkdir_parents_Dir_names [of es p d'] obtain es'
      where "d' = Dir es'" and "fst ` set es \<subseteq> fst ` set es'" by auto
    with Dir show ?thesis by (simp add: listdir_Nil)
  qed
next
  case (Cons y qs)
  show ?case
  proof (cases d)
    case (File c)
    then show ?thesis by (simp add: listdir_File)
  next
    case (Dir es)
    show ?thesis
    proof (cases p)
      case Nil
      with Cons.prems Dir show ?thesis by simp
    next
      case (Cons x xs)
      with Cons.prems Dir obtain n' where
        n': "mkdir_parents (case map_of es x of None \<Rightarrow> Dir [] | Some n \<Rightarrow> n) xs = Inr n'"
        and d': "d' = Dir (AList.update x n' es)"
        by (auto split: sum.splits)
      show ?thesis
      proof (cases "y = x")
        case False
        with Dir d' show ?thesis by (simp add: listdir_Cons AList.update_conv')
      next
        case True
        show ?thesis
        proof (cases "map_of es x")
          case None
          with Dir True show ?thesis by (simp add: listdir_Cons)
        next
          case (Some n)
          with n' have "mkdir_parents n xs = Inr n'" by simp
          from Cons.IH [OF this] Dir d' True Some show ?thesis
            by (simp add: listdir_Cons AList.update_conv')
        qed
      qed
    qed
  qed
qed

lemma listdir_write_mono:
  "write_file d p c = Inr d' \<Longrightarrow> set (listdir d q) \<subseteq> set (listdir d' q)"
proof (induction q arbitrary: d d' p)
  case Nil
  show ?case
  proof (cases d)
    case (File c0)
    then show ?thesis by (simp add: listdir_File)
  next
    case (Dir es)
    with Nil write_file_Dir_names [of es p c d'] obtain es'
      where "d' = Dir es'" and "fst ` set es \<subseteq> fst ` set es'" by auto
    with Dir show ?thesis by (simp add: listdir_Nil)
  qed
next
  case (Cons y qs)
  show ?case
  proof (cases d)
    case (File c0)
    then show ?thesis by (simp add: listdir_File)
  next
    case (Dir es)
    show ?thesis
    proof (cases p)
      case Nil
      with Cons.prems Dir show ?thesis by simp
    next
      case (Cons x xs)
      show ?thesis
      proof (cases "map_of es x")
        case None
        with Cons.prems Dir Cons have d': "d' = Dir (AList.update x (File c) es)"
          by (auto split: if_splits)
        show ?thesis
        proof (cases "y = x")
          case True
          with None Dir show ?thesis by (simp add: listdir_Cons)
        next
          case False
          with Dir d' show ?thesis by (simp add: listdir_Cons AList.update_conv')
        qed
      next
        case (Some n)
        with Cons.prems Dir Cons obtain n' where
          n': "write_file n xs c = Inr n'" and d': "d' = Dir (AList.update x n' es)"
          by (auto split: sum.splits)
        show ?thesis
        proof (cases "y = x")
          case False
          with Dir d' show ?thesis by (simp add: listdir_Cons AList.update_conv')
        next
          case True
          from Cons.IH [OF n'] Dir d' True Some show ?thesis
            by (simp add: listdir_Cons AList.update_conv')
        qed
      qed
    qed
  qed
qed

lemma listdir_mkdir_below:
  "mkdir_parents d (q @ x # r) = Inr d' \<Longrightarrow> exists d (q @ [x]) \<Longrightarrow> listdir d' q = listdir d q"
proof (induction q arbitrary: d d')
  case Nil
  then show ?case
    by (cases d) (auto simp: exists_def listdir_Nil update_keys_present
        split: sum.splits option.splits)
next
  case (Cons y qs)
  from Cons.prems(2) obtain es n where d: "d = Dir es" and n: "map_of es y = Some n"
    and ex: "exists n (qs @ [x])"
    by (cases d) (auto simp: exists_def split: option.splits)
  from Cons.prems(1) d n obtain n' where n': "mkdir_parents n (qs @ x # r) = Inr n'"
    and d': "d' = Dir (AList.update y n' es)"
    by (auto split: sum.splits)
  from Cons.IH [OF n' ex] d d' n show ?case
    by (simp add: listdir_Cons AList.update_conv')
qed

lemma listdir_write_below:
  "write_file d (q @ x # r) c = Inr d' \<Longrightarrow> exists d (q @ [x]) \<Longrightarrow> listdir d' q = listdir d q"
proof (induction q arbitrary: d d')
  case Nil
  then show ?case
    by (cases d) (auto simp: exists_def listdir_Nil update_keys_present
        split: sum.splits option.splits)
next
  case (Cons y qs)
  from Cons.prems(2) obtain es n where d: "d = Dir es" and n: "map_of es y = Some n"
    and ex: "exists n (qs @ [x])"
    by (cases d) (auto simp: exists_def split: option.splits)
  from Cons.prems(1) d n obtain n' where n': "write_file n (qs @ x # r) c = Inr n'"
    and d': "d' = Dir (AList.update y n' es)"
    by (auto split: sum.splits)
  from Cons.IH [OF n' ex] d d' n show ?case
    by (simp add: listdir_Cons AList.update_conv')
qed

section \<open>Skipping a snapshot that exists\<close>

lemma resolve_state:
  "snd (resolve output_path s) = s\<lparr>trace := trace s @ resolve_events output_path\<rparr>"
  by (cases output_path) (simp_all add: resolve_def resolve_events_def)

lemma resolve_value:
  "fst (resolve output_path s) =
     (case output_path of None \<Rightarrow> get_last_output_path (fs s) default_search_path | Some p \<Rightarrow> Inr p)"
  by (cases output_path) (simp_all add: resolve_def)

lemma resolve_eq:
  "resolve output_path s = (fst (resolve output_path s), s\<lparr>trace := trace s @ resolve_events output_path\<rparr>)"
  by (metis prod.collapse resolve_state)

lemma load_cells_fs: "load_cells iteration output_path s = (r, s') \<Longrightarrow> fs s' = fs s"
  by (cases output_path)
    (auto simp: load_cells_def resolve_def Let_def split: sum.splits prod.splits)

lemma skip_existing:
  assumes "fst (resolve output_path s) = Inr op"
    and "exists (fs s) (snapshot_path op save_path iteration)"
  shows "plot_cells_at_iter viridis iteration lo hi output_path save_path False transparent s
           = (Inr (snapshot_path op save_path iteration),
              s\<lparr>trace := trace s @ resolve_events output_path\<rparr>)"
proof -
  let ?s1 = "s\<lparr>trace := trace s @ resolve_events output_path\<rparr>"
  have r: "resolve output_path s = (Inr op, ?s1)"
    using assms(1) resolve_eq [of output_path s] by simp
  obtain es where "lookup (fs s) (snapshot_dir op save_path) = Some (Dir es)"
    using assms(2) exists_parent_Dir unfolding snapshot_path_def by blast
  then have m: "mkdir_parents (fs ?s1) (snapshot_dir op save_path) = Inr (fs s)"
    by (simp add: mkdir_parents_existing)
  show ?thesis
    using r m assms(2) by (simp add: plot_cells_at_iter_def)
qed

lemma first_call_effect:
  assumes "plot_cells_at_iter viridis iteration lo hi output_path save_path False transparent s
             = (Inr p, s1)"
  shows "\<exists>op d2. fst (resolve output_path s) = Inr op \<and> p = snapshot_path op save_path iteration
           \<and> mkdir_parents (fs s) (snapshot_dir op save_path) = Inr d2
           \<and> (fs s1 = d2 \<and> exists d2 p \<or> (\<exists>c. write_file d2 p c = Inr (fs s1)))"
proof -
  let ?s0 = "s\<lparr>trace := trace s @ resolve_events output_path\<rparr>"
  obtain op where r: "resolve output_path s = (Inr op, ?s0)"
    using assms resolve_eq [of output_path s]
    by (cases "fst (resolve output_path s)") (auto simp: plot_cells_at_iter_def)
  obtain d2 where m: "mkdir_parents (fs s) (snapshot_dir op save_path) = Inr d2"
    using assms r by (cases "mkdir_parents (fs s) (snapshot_dir op save_path)")
      (auto simp: plot_cells_at_iter_def)
  let ?t = "snapshot_path op save_path iteration"
  show ?thesis
  proof (cases "exists d2 ?t")
    case True
    with assms r m have "p = ?t" "fs s1 = d2"
      by (auto simp: plot_cells_at_iter_def)
    with r m True show ?thesis by auto
  next
    case False
    obtain res s3 where l: "load_cells iteration (Some op) (?s0\<lparr>fs := d2\<rparr>) = (res, s3)"
      by (cases "load_cells iteration (Some op) (?s0\<lparr>fs := d2\<rparr>)") auto
    then have f3: "fs s3 = d2" using load_cells_fs by fastforce
    from assms r m False l f3 have "p = ?t \<and> (\<exists>c. write_file d2 ?t c = Inr (fs s1))"
      by (auto simp: plot_cells_at_iter_def Let_def split: sum.splits)
    with r m show ?thesis by auto
  qed
qed

lemma get_last_output_path_in_listing:
  assumes "get_last_output_path d sp = Inr op"
  shows "\<exists>n. op = sp @ [n] \<and> n \<in> set (listdir d sp) \<and> \<not> hidden n"
proof -
  let ?g = "glob_star d sp"
  from assms have ne: "sort_key path_str ?g \<noteq> []" and op: "op = last (sort_key path_str ?g)"
    by (auto simp: get_last_output_path_def Let_def split: if_splits)
  then have "op \<in> set ?g" using last_in_set [OF ne] by simp
  then show ?thesis by (auto simp: glob_star_def)
qed

lemma get_last_output_path_listing_eq:
  "listdir d' sp = listdir d sp \<Longrightarrow> get_last_output_path d' sp = get_last_output_path d sp"
  by (simp add: get_last_output_path_def glob_star_def)

lemma get_last_output_path_listing_mono:
  assumes "get_last_output_path d sp = Inr op" and "set (listdir d sp) \<subseteq> set (listdir d' sp)"
  shows "\<exists>op'. get_last_output_path d' sp = Inr op'"
proof -
  from get_last_output_path_in_listing [OF assms(1)] assms(2)
  have "glob_star d' sp \<noteq> []" by (auto simp: glob_star_def filter_empty_conv)
  then have "sort_key path_str (glob_star d' sp) \<noteq> []"
    by (metis length_sort list.size(3) length_0_conv)
  then show ?thesis by (simp add: get_last_output_path_def Let_def)
qed

lemma listed_exists:
  assumes "n \<in> set (listdir d q)"
  shows "exists d (q @ [n])"
proof (cases "lookup d q")
  case None
  with assms show ?thesis by (simp add: listdir_def)
next
  case (Some nd)
  show ?thesis
  proof (cases nd)
    case (File c)
    with Some assms show ?thesis by (simp add: listdir_def)
  next
    case (Dir es)
    with Some assms have "n \<in> fst ` set es" by (simp add: listdir_def)
    then have "map_of es n \<noteq> None" by (simp add: map_of_eq_None_iff)
    with Some Dir show ?thesis by (auto simp: exists_def lookup_append)
  qed
qed

lemma second_call:
  assumes "plot_cells_at_iter viridis iteration lo hi output_path save_path False transparent s
             = (Inr p, s1)"
  shows "plot_cells_at_iter viridis iteration lo hi output_path save_path False transparent s1
           = (Inr p, s1\<lparr>trace := trace s1 @ resolve_events output_path\<rparr>)"
proof -
  from first_call_effect [OF assms] obtain op d2 where
    r: "fst (resolve output_path s) = Inr op" and p: "p = snapshot_path op save_path iteration"
    and m: "mkdir_parents (fs s) (snapshot_dir op save_path) = Inr d2"
    and w: "fs s1 = d2 \<and> exists d2 p \<or> (\<exists>c. write_file d2 p c = Inr (fs s1))"
    by blast
  have ex: "exists (fs s1) p"
    using w write_file_written by (auto simp: exists_def)
  have "\<exists>op2. fst (resolve output_path s1) = Inr op2 \<and> snapshot_path op2 save_path iteration = p"
  proof (cases output_path)
    case (Some q)
    with r p show ?thesis by (simp add: resolve_value)
  next
    case None
    let ?sp = default_search_path
    from r None have g: "get_last_output_path (fs s) ?sp = Inr op" by (simp add: resolve_value)
    show ?thesis
    proof (cases save_path)
      case (Some q)
      have "set (listdir (fs s) ?sp) \<subseteq> set (listdir d2 ?sp)"
        using m by (rule listdir_mkdir_mono)
      moreover have "set (listdir d2 ?sp) \<subseteq> set (listdir (fs s1) ?sp)"
      proof (cases "fs s1 = d2")
        case True
        then show ?thesis by simp
      next
        case False
        with w obtain c where "write_file d2 p c = Inr (fs s1)" by blast
        then show ?thesis by (rule listdir_write_mono)
      qed
      ultimately obtain op2 where "get_last_output_path (fs s1) ?sp = Inr op2"
        using get_last_output_path_listing_mono [OF g] by blast
      with None Some p show ?thesis
        by (simp add: resolve_value snapshot_path_def snapshot_dir_def)
    next
      case save_None: None
      from get_last_output_path_in_listing [OF g] obtain n where
        op: "op = ?sp @ [n]" and n: "n \<in> set (listdir (fs s) ?sp)" by blast
      have e0: "exists (fs s) (?sp @ [n])" using n by (rule listed_exists)
      have m': "mkdir_parents (fs s) (?sp @ n # [''images'']) = Inr d2"
        using m op save_None by (simp add: snapshot_dir_def)
      have l2: "listdir d2 ?sp = listdir (fs s) ?sp"
        using m' e0 by (rule listdir_mkdir_below)
      have e2: "exists d2 (?sp @ [n])"
        using mkdir_parents_creates [OF m'] exists_prefix [of d2 "?sp @ [n]" "[''images'']"]
        by (auto simp: exists_def)
      have "listdir (fs s1) ?sp = listdir d2 ?sp"
      proof (cases "fs s1 = d2")
        case True
        then show ?thesis by simp
      next
        case False
        with w obtain c where "write_file d2 p c = Inr (fs s1)" by blast
        then have "write_file d2 (?sp @ n # [''images'', snapshot_name iteration]) c = Inr (fs s1)"
          using p op save_None by (simp add: snapshot_path_def snapshot_dir_def)
        then show ?thesis using e2 by (rule listdir_write_below)
      qed
      with l2 have "get_last_output_path (fs s1) ?sp = Inr op"
        using g get_last_output_path_listing_eq [of "fs s1" ?sp "fs s"] by simp
      with None p show ?thesis by (simp add: resolve_value)
    qed
  qed
  then obtain op2 where "fst (resolve output_path s1) = Inr op2"
    and "snapshot_path op2 save_path iteration = p" by blast
  with skip_existing [of output_path s1 op2 save_path iteration] ex show ?thesis by simp
qed

lemma first_render:
  "fst (plot_cells_at_iter grey 1 0 4 None None False True \<lparr>fs = disk_one_run, trace = []\<rparr>)
     = Inr snapshot_1"
  "trace (snd (plot_cells_at_iter grey 1 0 4 None None False True
                  \<lparr>fs = disk_one_run, trace = []\<rparr>))
     = [Resolve default_search_path, Load 1 [''out'', ''cr_trichome'', ''run1''], Render 1]"
  by code_simp+

lemma rendered_facts:
  "target_path (Some [''run'']) (Some [''shots'']) 1 \<lparr>fs = disk_rendered, trace = []\<rparr>
     = Inr [''shots'', ''snapshot-00000000000000000001.png'']"
  "exists disk_rendered [''shots'', ''snapshot-00000000000000000001.png'']"
  by code_simp+

text \<open>
  Without a run, passed or found, no target path is computed: the \<open>ValueError\<close> of
  \<open>get_last_output_path\<close> comes first, also when \<open>save_path\<close> is given and holds the
  snapshot.
\<close>

lemma unresolved_run_raises:
  "plot_cells_at_iter grey 1 0 4 None (Some [''shots'']) False True
     \<lparr>fs = disk_rendered, trace = []\<rparr>
   = (Inl (NoFolderFound default_search_path),
      \<lparr>fs = disk_rendered, trace = [Resolve default_search_path]\<rparr>)"
  by (simp add: plot_cells_at_iter_def resolve_def get_last_output_path_def glob_star_def
      listdir_def disk_rendered_def default_search_path_def)

text \<open>
  Claim C3.  When the target path is computed (the run is passed or found), the target
  exists and \<open>overwrite\<close> is false, \<open>plot_cells_at_iter\<close> returns the target; the file
  tree is unchanged and the trace gains nothing but the \<open>Resolve\<close> of a run that was not
  passed: no \<open>Load\<close>, no \<open>Render\<close>.  Hence, when a call with \<open>overwrite = False\<close> has
  returned a path, the file exists, and a second call from the resulting state returns
  the same path, leaves the file tree as it is and loads nothing.
\<close>

theorem plot_cells_at_iter_skips_existing:
  "(target_path output_path save_path iteration s = Inr t \<and> exists (fs s) t
      \<longrightarrow> plot_cells_at_iter viridis iteration lo hi output_path save_path False transparent s
            = (Inr t, s\<lparr>trace := trace s @ resolve_events output_path\<rparr>))
   \<and> (plot_cells_at_iter viridis iteration lo hi output_path save_path False transparent s
         = (Inr p, s1)
      \<longrightarrow> exists (fs s1) p
          \<and> plot_cells_at_iter viridis iteration lo hi output_path save_path False transparent s1
              = (Inr p, s1\<lparr>trace := trace s1 @ resolve_events output_path\<rparr>))"
proof (intro conjI impI)
  assume "target_path output_path save_path iteration s = Inr t \<and> exists (fs s) t"
  then show "plot_cells_at_iter viridis iteration lo hi output_path save_path False transparent s
            = (Inr t, s\<lparr>trace := trace s @ resolve_events output_path\<rparr>)"
    using skip_existing [of output_path s _ save_path iteration]
    by (auto simp: target_path_def split: sum.splits)
next
  assume a: "plot_cells_at_iter viridis iteration lo hi output_path save_path False transparent s
         = (Inr p, s1)"
  from first_call_effect [OF a] write_file_written show "exists (fs s1) p"
    by (auto simp: exists_def)
  from a show "plot_cells_at_iter viridis iteration lo hi output_path save_path False
                  transparent s1
              = (Inr p, s1\<lparr>trace := trace s1 @ resolve_events output_path\<rparr>)"
    by (rule second_call)
qed


theorem plot_cells_at_iter_skips_existing_witness:
  "target_path (Some [''run'']) (Some [''shots'']) 1 \<lparr>fs = disk_rendered, trace = []\<rparr>
     = Inr [''shots'', ''snapshot-00000000000000000001.png'']
   \<and> exists disk_rendered [''shots'', ''snapshot-00000000000000000001.png'']
   \<and> plot_cells_at_iter grey 1 0 4 (Some [''run'']) (Some [''shots'']) False True
         \<lparr>fs = disk_rendered, trace = []\<rparr>
       = (Inr [''shots'', ''snapshot-00000000000000000001.png''],
          \<lparr>fs = disk_rendered, trace = []\<rparr>)
   \<and> fst (plot_cells_at_iter grey 1 0 4 None None False True \<lparr>fs = disk_one_run, trace = []\<rparr>)
     = Inr snapshot_1
   \<and> trace (snd (plot_cells_at_iter grey 1 0 4 None None False True
                  \<lparr>fs = disk_one_run, trace = []\<rparr>))
     = [Resolve default_search_path, Load 1 [''out'', ''cr_trichome'', ''run1''], Render 1]
   \<and> exists (fs (snd (plot_cells_at_iter grey 1 0 4 None None False True
                  \<lparr>fs = disk_one_run, trace = []\<rparr>))) snapshot_1
   \<and> fst (plot_cells_at_iter grey 1 0 4 None None False True
        (snd (plot_cells_at_iter grey 1 0 4 None None False True
                \<lparr>fs = disk_one_run, trace = []\<rparr>)))
     = Inr snapshot_1
   \<and> fs (snd (plot_cells_at_iter grey 1 0 4 None None False True
        (snd (plot_cells_at_iter grey 1 0 4 None None False True
                \<lparr>fs = disk_one_run, trace = []\<rparr>))))
     = fs (snd (plot_cells_at_iter grey 1 0 4 None None False True
                \<lparr>fs = disk_one_run, trace = []\<rparr>))
   \<and> trace (snd (plot_cells_at_iter grey 1 0 4 None None False True
        (snd (plot_cells_at_iter grey 1 0 4 None None False True
                \<lparr>fs = disk_one_run, trace = []\<rparr>))))
     = [Resolve default_search_path, Load 1 [''out'', ''cr_trichome'', ''run1''], Render 1,
        Resolve default_search_path]"
proof -
  let ?s0 = "\<lparr>fs = disk_one_run, trace = []\<rparr>"
  let ?s1 = "snd (plot_cells_at_iter grey 1 0 4 None None False True ?s0)"
  have "plot_cells_at_iter grey 1 0 4 None None False True ?s0 = (Inr snapshot_1, ?s1)"
    using first_render(1) by (metis prod.collapse)
  with plot_cells_at_iter_skips_existing [of None None 1 ?s0 _ grey 0 4 True snapshot_1 ?s1]
  have "exists (fs ?s1) snapshot_1"
    and "plot_cells_at_iter grey 1 0 4 None None False True ?s1
           = (Inr snapshot_1, ?s1\<lparr>trace := trace ?s1 @ resolve_events None\<rparr>)"
    by blast+
  moreover
  let ?s = "\<lparr>fs = disk_rendered, trace = []\<rparr>"
  from plot_cells_at_iter_skips_existing
         [of "Some [''run'']" "Some [''shots'']" 1 ?s
             "[''shots'', ''snapshot-00000000000000000001.png'']" grey 0 4 True]
    rendered_facts
  have "plot_cells_at_iter grey 1 0 4 (Some [''run'']) (Some [''shots'']) False True ?s
          = (Inr [''shots'', ''snapshot-00000000000000000001.png''],
             ?s\<lparr>trace := trace ?s @ resolve_events (Some [''run''])\<rparr>)"
    by simp
  ultimately show ?thesis
    using first_render rendered_facts by (simp add: resolve_events_def)
qed

text \<open>
  With \<open>overwrite = True\<close> and the run passed, a call that returns has loaded the cells of
  the iteration, rendered them and written the snapshot, whether or not the file existed
  before.
\<close>

theorem overwrite_renders_again:
  assumes "plot_cells_at_iter viridis iteration lo hi (Some op) save_path True transparent s
             = (Inr p, s')"
  shows "p = snapshot_path op save_path iteration
       \<and> trace s' = trace s @ [Load iteration op, Render iteration]
       \<and> (\<exists>ax. lookup (fs s') p = Some (File (Png ax transparent)))"
proof -
  obtain d2 where m: "mkdir_parents (fs s) (snapshot_dir op save_path) = Inr d2"
    using assms by (cases "mkdir_parents (fs s) (snapshot_dir op save_path)")
      (auto simp: plot_cells_at_iter_Some)
  let ?s2 = "s\<lparr>fs := d2\<rparr>"
  obtain res s3 where l: "load_cells iteration (Some op) ?s2 = (res, s3)"
    by (cases "load_cells iteration (Some op) ?s2") auto
  then have s3: "s3 = ?s2\<lparr>trace := trace ?s2 @ [Load iteration op]\<rparr>"
    by (auto simp: load_cells_Some Let_def split: sum.splits)
  let ?t = "snapshot_path op save_path iteration"
  let ?s4 = "s3\<lparr>trace := trace s3 @ [Render iteration]\<rparr>"
  have e: "(case res of
              Inl e \<Rightarrow> (Inl e, s3)
            | Inr cells \<Rightarrow>
                (let s4 = s3\<lparr>trace := trace s3 @ [Render iteration]\<rparr>
                 in case plot_cells viridis [] cells lo hi of
                      Inl e \<Rightarrow> (Inl e, s4)
                    | Inr ax \<Rightarrow>
                        (case write_file (fs s4) ?t (Png ax transparent) of
                           Inl e \<Rightarrow> (Inl e, s4)
                         | Inr disk5 \<Rightarrow> (Inr ?t, s4\<lparr>fs := disk5\<rparr>)))) = (Inr p, s')"
    using assms m l by (simp add: plot_cells_at_iter_Some Let_def)
  then obtain cells where res: "res = Inr cells" by (cases res) auto
  with e have e2: "(case plot_cells viridis [] cells lo hi of
                      Inl e \<Rightarrow> (Inl e, ?s4)
                    | Inr ax \<Rightarrow>
                        (case write_file (fs ?s4) ?t (Png ax transparent) of
                           Inl e \<Rightarrow> (Inl e, ?s4)
                         | Inr disk5 \<Rightarrow> (Inr ?t, ?s4\<lparr>fs := disk5\<rparr>))) = (Inr p, s')"
    by (simp add: Let_def)
  then obtain ax where ax: "plot_cells viridis [] cells lo hi = Inr ax"
    by (cases "plot_cells viridis [] cells lo hi") auto
  with e2 obtain d5 where w: "write_file (fs ?s4) ?t (Png ax transparent) = Inr d5"
    by (cases "write_file (fs ?s4) ?t (Png ax transparent)") auto
  with e2 ax have p: "p = ?t" and s': "s' = ?s4\<lparr>fs := d5\<rparr>" by auto
  from write_file_written [OF w] p s' s3 show ?thesis by auto
qed

lemma overwrite_first_iteration:
  "fst (plot_cells_at_iter grey 1 0 4 (Some run1) None True False \<lparr>fs = disk_one_run, trace = []\<rparr>)
     = Inr snapshot_1"
  by code_simp

theorem overwrite_renders_again_witness:
  "fst (plot_cells_at_iter grey 1 0 4 (Some run1) None True False \<lparr>fs = disk_one_run, trace = []\<rparr>)
     = Inr snapshot_1
   \<and> snapshot_1 = snapshot_path run1 None 1
   \<and> trace (snd (plot_cells_at_iter grey 1 0 4 (Some run1) None True False
                   \<lparr>fs = disk_one_run, trace = []\<rparr>)) = [Load 1 run1, Render 1]
   \<and> (\<exists>ax. lookup (fs (snd (plot_cells_at_iter grey 1 0 4 (Some run1) None True False
                   \<lparr>fs = disk_one_run, trace = []\<rparr>))) snapshot_1 = Some (File (Png ax False)))"
proof -
  let ?out = "plot_cells_at_iter grey 1 0 4 (Some run1) None True False
                \<lparr>fs = disk_one_run, trace = []\<rparr>"
  have "?out = (Inr snapshot_1, snd ?out)" using overwrite_first_iteration by (metis prod.collapse)
  from overwrite_renders_again [OF this] overwrite_first_iteration show ?thesis by simp
qed

section \<open>The order of the batch results\<close>

lemma run_jobs_indices: "map fst (fst (run_jobs f jobs order s)) = order"
proof (induction order arbitrary: s)
  case Nil
  then show ?case by simp
next
  case (Cons j order)
  obtain r1 s1 where f: "f (jobs ! j) s = (r1, s1)" by (cases "f (jobs ! j) s") auto
  obtain rs s2 where r: "run_jobs f jobs order s1 = (rs, s2)"
    by (cases "run_jobs f jobs order s1") auto
  from Cons [of s1] r have "map fst rs = order" by simp
  with f r show ?case by simp
qed

lemma run_jobs_results:
  assumes "\<And>i s. i < length jobs \<Longrightarrow> Q i (fst (f (jobs ! i) s))"
    and "set order \<subseteq> {..<length jobs}"
    and "(i, r) \<in> set (fst (run_jobs f jobs order s))"
  shows "Q i r"
  using assms(2,3)
proof (induction order arbitrary: s)
  case Nil
  then show ?case by simp
next
  case (Cons j order)
  obtain r1 s1 where f: "f (jobs ! j) s = (r1, s1)" by (cases "f (jobs ! j) s") auto
  from Cons.prems(2) f have "(i, r) = (j, r1) \<or> (i, r) \<in> set (fst (run_jobs f jobs order s1))"
    by (auto split: prod.splits)
  then show ?case
  proof
    assume "(i, r) = (j, r1)"
    moreover have "Q j (fst (f (jobs ! j) s))" using Cons.prems(1) assms(1) by simp
    ultimately show ?thesis using f by simp
  next
    assume "(i, r) \<in> set (fst (run_jobs f jobs order s1))"
    with Cons show ?thesis by simp
  qed
qed

lemma sorted_indices:
  assumes "map fst finished = order" and "mset order = mset [0..<n]"
  shows "map fst (sort_key fst finished) = [0..<n]"
proof -
  have "mset (map fst (sort_key fst finished)) = mset [0..<n]"
    using assms by (metis mset_map mset_sort)
  moreover have "sorted (map fst (sort_key fst finished))" by (rule sorted_sort_key)
  ultimately have "sort [0..<n] = map fst (sort_key fst finished)"
    by (rule properties_for_sort)
  then show ?thesis by simp
qed

lemma imap_in_job_order:
  assumes "mset order = mset [0..<length jobs]"
  shows "length (fst (imap f jobs order s)) = length jobs"
    and "k < length jobs \<Longrightarrow>
           (k, fst (imap f jobs order s) ! k) \<in> set (fst (run_jobs f jobs order s))"
proof -
  let ?fin = "fst (run_jobs f jobs order s)"
  let ?sd = "sort_key fst ?fin"
  have res: "fst (imap f jobs order s) = map snd ?sd"
    by (simp add: imap_def split: prod.splits)
  have idx: "map fst ?sd = [0..<length jobs]"
    using run_jobs_indices assms by (rule sorted_indices)
  then have len: "length ?sd = length jobs"
    by (metis length_map length_upt minus_nat.diff_0)
  show "length (fst (imap f jobs order s)) = length jobs"
    using res len by simp
  {
    assume k: "k < length jobs"
    have "fst (?sd ! k) = k"
      using idx k len by (metis add_0 nth_map nth_upt)
    then have eq: "?sd ! k = (k, fst (imap f jobs order s) ! k)"
      using res k len by (simp add: prod_eq_iff)
    have "?sd ! k \<in> set ?fin"
      using k len by (metis nth_mem set_sort)
    with eq show "(k, fst (imap f jobs order s) ! k) \<in> set ?fin" by simp
  }
qed

lemma permutation_in_range:
  "mset order = mset [0..<n] \<Longrightarrow> set order \<subseteq> {..<n}"
  by (metis atLeast_upt mset_eq_setD order_refl)

lemma imap_results:
  assumes "\<And>i s. i < length jobs \<Longrightarrow> Q i (fst (f (jobs ! i) s))"
    and "mset order = mset [0..<length jobs]"
    and "k < length jobs"
  shows "Q k (fst (imap f jobs order s) ! k)"
  using run_jobs_results [of jobs Q f order k _ s, OF assms(1) permutation_in_range [OF assms(2)]
      imap_in_job_order(2) [OF assms(2,3)]] by simp

lemma plot_cells_at_iter_path:
  "plot_cells_at_iter viridis iteration lo hi (Some op) save_path overwrite transparent s
     = (Inr p, s') \<Longrightarrow> p = snapshot_path op save_path iteration"
  by (auto simp: plot_cells_at_iter_Some Let_def split: sum.splits if_splits prod.splits)

lemma get_all_iterations_Some:
  "get_all_iterations (Some op) s = (fst (get_all_iterations (Some op) s), s)"
  by (simp add: get_all_iterations_def resolve_def Let_def split: sum.splits)

lemma get_all_iterations_fs:
  "fs s' = fs s \<Longrightarrow> fst (get_all_iterations (Some op) s') = fst (get_all_iterations (Some op) s)"
  by (simp add: get_all_iterations_def resolve_def Let_def split: sum.splits)

lemma get_all_iterations_sorted_result:
  "fst (get_all_iterations (Some op) s) = Inr its \<Longrightarrow> sorted its"
  by (auto simp: get_all_iterations_def resolve_def Let_def split: sum.splits)

lemma batch_unfold:
  assumes "fst (resolve output_path s) = Inr op"
    and "fst (get_all_iterations (Some op) s) = Inr its"
  shows "plot_cells_at_all_iterations viridis lo hi output_path save_path overwrite transparent
           order s
         = (first_error (fst (imap (plotting_helper viridis)
                (arguments its lo hi op save_path overwrite transparent) order
                (s\<lparr>trace := trace s @ resolve_events output_path\<rparr>))),
            snd (imap (plotting_helper viridis)
                (arguments its lo hi op save_path overwrite transparent) order
                (s\<lparr>trace := trace s @ resolve_events output_path\<rparr>)))"
proof -
  let ?s1 = "s\<lparr>trace := trace s @ resolve_events output_path\<rparr>"
  have r: "resolve output_path s = (Inr op, ?s1)"
    using assms(1) resolve_eq [of output_path s] by simp
  have "fst (get_all_iterations (Some op) ?s1) = Inr its"
    using assms(2) get_all_iterations_fs [of ?s1 s op] by simp
  then have g: "get_all_iterations (Some op) ?s1 = (Inr its, ?s1)"
    using get_all_iterations_Some [of op ?s1] by simp
  show ?thesis
    using r g by (simp add: plot_cells_at_all_iterations_def split: prod.splits)
qed

lemma job_path:
  assumes "i < length its"
  shows "\<forall>p. fst (plotting_helper viridis
                 (arguments its lo hi op save_path overwrite transparent ! i) s) = Inr p
             \<longrightarrow> p = snapshot_path op save_path (its ! i)"
  using assms plot_cells_at_iter_path
  by (auto simp: plotting_helper_def arguments_def) (metis prod.collapse)

lemma one_run_facts:
  "fst (resolve None \<lparr>fs = disk_one_run, trace = []\<rparr>) = Inr run1"
  "fst (get_all_iterations (Some run1) \<lparr>fs = disk_one_run, trace = []\<rparr>) = Inr [1, 3]"
  "snapshot_path run1 None 1 = snapshot_1"
  "snapshot_path run1 None 3 = snapshot_3"
  by code_simp+

lemma swapped_order: "mset [1, 0] = mset [0..<length [1, 3 :: int]]"
  by (simp del: mset_upt add: upt_rec)

lemma batch_swapped:
  "fst (plot_cells_at_all_iterations grey 0 4 None None False True [1, 0]
          \<lparr>fs = disk_one_run, trace = []\<rparr>) = Inr [snapshot_1, snapshot_3]"
  by code_simp

text \<open>
  Claim C4.  Let \<open>its\<close> be the iterations of the resolved run \<open>op\<close>, and let the workers
  finish the jobs in any order (a permutation \<open>order\<close> of the job indices).  Whenever
  \<open>plot_cells_at_all_iterations\<close> returns, \<open>its\<close> is ascending and the result is the list
  of the snapshot paths of \<open>its\<close>, entry by entry: it does not depend on \<open>order\<close>.
\<close>

theorem batch_result_in_iteration_order:
  assumes "fst (resolve output_path s) = Inr op"
    and "fst (get_all_iterations (Some op) s) = Inr its"
    and "mset order = mset [0..<length its]"
    and "plot_cells_at_all_iterations viridis lo hi output_path save_path overwrite transparent
           order s = (Inr paths, s')"
  shows "sorted its \<and> paths = map (snapshot_path op save_path) its"
proof -
  let ?jobs = "arguments its lo hi op save_path overwrite transparent"
  let ?s1 = "s\<lparr>trace := trace s @ resolve_events output_path\<rparr>"
  let ?res = "fst (imap (plotting_helper viridis) ?jobs order ?s1)"
  have n: "length ?jobs = length its" by (simp add: arguments_def)
  have fe: "first_error ?res = Inr paths"
    using assms(4) batch_unfold [OF assms(1,2)] by simp
  then have res: "?res = map Inr paths" by (rule first_error_Inr_length)
  have Q: "\<And>i s. i < length ?jobs \<Longrightarrow>
      \<forall>p. fst (plotting_helper viridis (?jobs ! i) s) = Inr p
          \<longrightarrow> p = snapshot_path op save_path (its ! i)"
    using job_path n by simp
  have o: "mset order = mset [0..<length ?jobs]" using assms(3) n by simp
  have len: "length paths = length its"
    using imap_in_job_order(1) [of order ?jobs "plotting_helper viridis" ?s1, OF o] res n
    by (metis (no_types, lifting) length_map)
  have "paths ! k = snapshot_path op save_path (its ! k)" if "k < length its" for k
  proof -
    from that n have k: "k < length ?jobs" by simp
    have "\<forall>p. ?res ! k = Inr p \<longrightarrow> p = snapshot_path op save_path (its ! k)"
      using imap_results [of ?jobs "\<lambda>i r. \<forall>p. r = Inr p \<longrightarrow> p = snapshot_path op save_path (its ! i)"
          "plotting_helper viridis" order k ?s1, OF Q o k] .
    moreover have "?res ! k = Inr (paths ! k)" using res that len by simp
    ultimately show ?thesis by simp
  qed
  then have "paths = map (snapshot_path op save_path) its"
    using len by (intro nth_equalityI) auto
  with get_all_iterations_sorted_result [OF assms(2)] show ?thesis by simp
qed

theorem batch_result_in_iteration_order_witness:
  "fst (resolve None \<lparr>fs = disk_one_run, trace = []\<rparr>) = Inr run1
   \<and> fst (get_all_iterations (Some run1) \<lparr>fs = disk_one_run, trace = []\<rparr>) = Inr [1, 3]
   \<and> mset [1, 0] = mset [0..<length [1, 3 :: int]]
   \<and> fst (plot_cells_at_all_iterations grey 0 4 None None False True [1, 0]
          \<lparr>fs = disk_one_run, trace = []\<rparr>) = Inr [snapshot_1, snapshot_3]
   \<and> sorted [1, 3 :: int]
   \<and> [snapshot_1, snapshot_3] = map (snapshot_path run1 None) [1, 3]"
proof -
  let ?s0 = "\<lparr>fs = disk_one_run, trace = []\<rparr>"
  have "plot_cells_at_all_iterations grey 0 4 None None False True [1, 0] ?s0
          = (Inr [snapshot_1, snapshot_3],
             snd (plot_cells_at_all_iterations grey 0 4 None None False True [1, 0] ?s0))"
    using batch_swapped by (metis prod.collapse)
  from batch_result_in_iteration_order [OF one_run_facts(1,2) swapped_order this] one_run_facts(1,2) swapped_order
    batch_swapped
  show ?thesis by blast
qed

section \<open>Failures and the run of a batch\<close>

lemma first_error_Inl_iff:
  "first_error rs = Inl e \<longleftrightarrow>
     (\<exists>k<length rs. rs ! k = Inl e \<and> (\<forall>j<k. \<exists>v. rs ! j = Inr v))"
proof (induction rs rule: first_error.induct)
  case 1
  then show ?case by simp
next
  case (2 e' rs)
  show ?case
  proof
    assume "first_error (Inl e' # rs) = Inl e"
    then have "(Inl e' # rs) ! 0 = Inl e \<and> (\<forall>j<0. \<exists>v. (Inl e' # rs) ! j = Inr v)" by simp
    then show "\<exists>k<length (Inl e' # rs). (Inl e' # rs) ! k = Inl e
                 \<and> (\<forall>j<k. \<exists>v. (Inl e' # rs) ! j = Inr v)"
      by (intro exI [of _ 0]) simp
  next
    assume "\<exists>k<length (Inl e' # rs). (Inl e' # rs) ! k = Inl e
                 \<and> (\<forall>j<k. \<exists>v. (Inl e' # rs) ! j = Inr v)"
    then obtain k where k: "(Inl e' # rs) ! k = Inl e" "\<forall>j<k. \<exists>v. (Inl e' # rs) ! j = Inr v"
      by blast
    have "k = 0"
    proof (rule ccontr)
      assume "k \<noteq> 0"
      with k(2) have "\<exists>v. (Inl e' # rs) ! 0 = Inr v" by blast
      then show False by simp
    qed
    with k(1) show "first_error (Inl e' # rs) = Inl e" by simp
  qed
next
  case (3 v rs)
  have "(\<exists>k<length (Inr v # rs). (Inr v # rs) ! k = Inl e \<and> (\<forall>j<k. \<exists>w. (Inr v # rs) ! j = Inr w))
        \<longleftrightarrow> (\<exists>k<length rs. rs ! k = Inl e \<and> (\<forall>j<k. \<exists>w. rs ! j = Inr w))"
    (is "?L \<longleftrightarrow> ?R")
  proof
    assume ?L
    then obtain k where k: "k < length (Inr v # rs)" "(Inr v # rs) ! k = Inl e"
      "\<forall>j<k. \<exists>w. (Inr v # rs) ! j = Inr w" by blast
    then obtain k' where k': "k = Suc k'" by (cases k) auto
    with k have "k' < length rs" "rs ! k' = Inl e" by auto
    moreover have "\<forall>j<k'. \<exists>w. rs ! j = Inr w"
    proof (intro allI impI)
      fix j assume "j < k'"
      then have "Suc j < k" using k' by simp
      with k(3) have "\<exists>w. (Inr v # rs) ! Suc j = Inr w" by blast
      then show "\<exists>w. rs ! j = Inr w" by simp
    qed
    ultimately show ?R by blast
  next
    assume ?R
    then obtain k where k: "k < length rs" "rs ! k = Inl e" "\<forall>j<k. \<exists>w. rs ! j = Inr w" by blast
    have "\<forall>j<Suc k. \<exists>w. (Inr v # rs) ! j = Inr w"
    proof (intro allI impI)
      fix j assume j: "j < Suc k"
      show "\<exists>w. (Inr v # rs) ! j = Inr w"
      proof (cases j)
        case 0
        then show ?thesis by simp
      next
        case (Suc j')
        with j k(3) show ?thesis by simp
      qed
    qed
    with k(1,2) show ?L by (intro exI [of _ "Suc k"]) simp
  qed
  with 3 show ?case by (auto split: sum.splits)
qed

lemma plot_cells_at_iter_trace:
  assumes "plot_cells_at_iter viridis iteration lo hi (Some op) save_path overwrite transparent s
             = (r, s')"
  shows "\<exists>evs. trace s' = trace s @ evs \<and> (\<forall>e \<in> set evs. batch_event op e)"
proof -
  have l: "\<exists>evs. trace s3 = trace s2 @ evs \<and> (\<forall>e \<in> set evs. batch_event op e)"
    if "load_cells iteration (Some op) s2 = (res, s3)" for s2 res s3
    using that
    by (auto simp: load_cells_Some Let_def batch_event_def split: sum.splits)
  show ?thesis
  proof (cases "mkdir_parents (fs s) (snapshot_dir op save_path)")
    case (Inl e)
    with assms show ?thesis by (auto simp: plot_cells_at_iter_Some)
  next
    case (Inr d2)
    show ?thesis
    proof (cases "exists d2 (snapshot_path op save_path iteration) \<and> \<not> overwrite")
      case True
      with assms Inr show ?thesis by (auto simp: plot_cells_at_iter_Some)
    next
      case False
      obtain res s3 where ld: "load_cells iteration (Some op) (s\<lparr>fs := d2\<rparr>) = (res, s3)"
        by (cases "load_cells iteration (Some op) (s\<lparr>fs := d2\<rparr>)") auto
      from l [OF ld] obtain evs where evs: "trace s3 = trace s @ evs"
        "\<forall>e \<in> set evs. batch_event op e" by auto
      have "trace s' = trace s3 \<or> trace s' = trace s3 @ [Render iteration]"
        using assms Inr False ld
        by (auto simp: plot_cells_at_iter_Some Let_def split: sum.splits)
      then show ?thesis
      proof
        assume "trace s' = trace s3"
        with evs show ?thesis by auto
      next
        assume "trace s' = trace s3 @ [Render iteration]"
        with evs have "trace s' = trace s @ (evs @ [Render iteration])"
          "\<forall>e \<in> set (evs @ [Render iteration]). batch_event op e"
          by (auto simp: batch_event_def)
        then show ?thesis by blast
      qed
    qed
  qed
qed

lemma run_jobs_trace:
  assumes "\<And>i s r s'. i < length jobs \<Longrightarrow> f (jobs ! i) s = (r, s') \<Longrightarrow>
             \<exists>evs. trace s' = trace s @ evs \<and> (\<forall>e \<in> set evs. batch_event op e)"
    and "set order \<subseteq> {..<length jobs}"
  shows "\<exists>evs. trace (snd (run_jobs f jobs order s)) = trace s @ evs
           \<and> (\<forall>e \<in> set evs. batch_event op e)"
  using assms(2)
proof (induction order arbitrary: s)
  case Nil
  then show ?case by simp
next
  case (Cons j order)
  obtain r1 s1 where f: "f (jobs ! j) s = (r1, s1)" by (cases "f (jobs ! j) s") auto
  with assms(1) [of j s r1 s1] Cons.prems obtain evs1 where
    1: "trace s1 = trace s @ evs1" "\<forall>e \<in> set evs1. batch_event op e" by auto
  from Cons.IH [of s1] Cons.prems obtain evs2 where
    2: "trace (snd (run_jobs f jobs order s1)) = trace s1 @ evs2"
    "\<forall>e \<in> set evs2. batch_event op e" by auto
  have "snd (run_jobs f jobs (j # order) s) = snd (run_jobs f jobs order s1)"
    using f by (simp split: prod.splits)
  with 1 2 have "trace (snd (run_jobs f jobs (j # order) s)) = trace s @ (evs1 @ evs2)"
    "\<forall>e \<in> set (evs1 @ evs2). batch_event op e" by auto
  then show ?case by blast
qed

lemma resolves_append: "resolves (a @ b) = resolves a + resolves b"
  by (simp add: resolves_def)

lemma resolves_batch_events: "\<forall>e \<in> set evs. batch_event op e \<Longrightarrow> resolves evs = 0"
  by (induction evs) (auto simp: resolves_def batch_event_def split: event.splits)

lemma resolves_resolve_events:
  "resolves (resolve_events output_path) = (if output_path = None then 1 else 0)"
  by (cases output_path) (simp_all add: resolves_def resolve_events_def)

lemma batch_result_entry:
  assumes "mset order = mset [0..<length its]" and "k < length its"
    and "fst (imap (plotting_helper viridis)
                (arguments its lo hi op save_path overwrite transparent) order s1) ! k = Inr p"
  shows "p = snapshot_path op save_path (its ! k)"
proof -
  let ?jobs = "arguments its lo hi op save_path overwrite transparent"
  have n: "length ?jobs = length its" by (simp add: arguments_def)
  have Q: "\<And>i s. i < length ?jobs \<Longrightarrow>
      \<forall>p. fst (plotting_helper viridis (?jobs ! i) s) = Inr p
          \<longrightarrow> p = snapshot_path op save_path (its ! i)"
    using job_path n by simp
  have o: "mset order = mset [0..<length ?jobs]" using assms(1) n by simp
  from assms(2) n have k: "k < length ?jobs" by simp
  from imap_results [of ?jobs
      "\<lambda>i r. \<forall>p. r = Inr p \<longrightarrow> p = snapshot_path op save_path (its ! i)"
      "plotting_helper viridis" order k s1, OF Q o k] assms(3)
  show ?thesis by simp
qed

lemma bad_batch:
  "fst (plot_cells_at_all_iterations grey 0 4 None None False True [0, 1]
          \<lparr>fs = disk_bad_iteration, trace = []\<rparr>) = Inl (KeyError ''cell.mechanics.points'')"
  "exists (fs (snd (plot_cells_at_all_iterations grey 0 4 None None False True [0, 1]
          \<lparr>fs = disk_bad_iteration, trace = []\<rparr>))) snapshot_1"
  by code_simp+

lemma good_batch:
  "fst (plot_cells_at_all_iterations grey 0 4 None None False True [0, 1]
          \<lparr>fs = disk_one_run, trace = []\<rparr>) = Inr [snapshot_1, snapshot_3]"
  "fst (plot_cells_at_all_iterations grey 0 4 None None False True [0, 1]
     (snd (plot_cells_at_all_iterations grey 0 4 None None False True [0, 1]
          \<lparr>fs = disk_one_run, trace = []\<rparr>))) = Inr [snapshot_1, snapshot_3]"
  "trace (snd (plot_cells_at_all_iterations grey 0 4 None None False True [0, 1]
          \<lparr>fs = disk_one_run, trace = []\<rparr>))
     = [Resolve default_search_path, Load 1 run1, Render 1, Load 3 run1, Render 3]"
  "trace (snd (plot_cells_at_all_iterations grey 0 4 None None False True [0, 1]
     (snd (plot_cells_at_all_iterations grey 0 4 None None False True [0, 1]
          \<lparr>fs = disk_one_run, trace = []\<rparr>))))
     = [Resolve default_search_path, Load 1 run1, Render 1, Load 3 run1, Render 3,
        Resolve default_search_path]"
  by code_simp+

lemma bad_run_facts:
  "fst (resolve None \<lparr>fs = disk_bad_iteration, trace = []\<rparr>) = Inr run1"
  "fst (get_all_iterations (Some run1) \<lparr>fs = disk_bad_iteration, trace = []\<rparr>) = Inr [1, 3]"
  by code_simp+

lemma bad_results:
  "fst (imap (plotting_helper grey) (arguments [1, 3] 0 4 run1 None False True) [0, 1]
          (\<lparr>fs = disk_bad_iteration, trace = []\<rparr>
             \<lparr>trace := trace \<lparr>fs = disk_bad_iteration, trace = []\<rparr> @ resolve_events None\<rparr>))
     = [Inr snapshot_1, Inl (KeyError ''cell.mechanics.points'')]"
  by code_simp

lemma identity_order: "mset [0, 1] = mset [0..<length [1, 3 :: int]]"
  by (simp del: mset_upt add: upt_rec)

lemma swapped_trace:
  "trace (snd (plot_cells_at_all_iterations grey 0 4 None None False True [1, 0]
          \<lparr>fs = disk_one_run, trace = []\<rparr>))
     = [Resolve default_search_path, Load 3 run1, Render 3, Load 1 run1, Render 1]"
  by code_simp

text \<open>
  Claim C10.  In a batch on the resolved run \<open>op\<close> with iterations \<open>its\<close>, whatever the
  order in which the jobs finish and whatever the outcome: every job carries \<open>Some op\<close>
  as its run; after the events of resolving the run (one \<open>Resolve\<close> when no run was
  passed, none otherwise) the trace gains only loads from \<open>op\<close> and renders; so the run
  is resolved once when none was passed and never otherwise.
\<close>

theorem batch_resolves_run_once:
  assumes "fst (resolve output_path s) = Inr op"
    and "fst (get_all_iterations (Some op) s) = Inr its"
    and "mset order = mset [0..<length its]"
    and "plot_cells_at_all_iterations viridis lo hi output_path save_path overwrite transparent
           order s = (r, s')"
  shows "(\<forall>job \<in> set (arguments its lo hi op save_path overwrite transparent).
            fst (snd job) = Some op)
       \<and> (\<exists>evs. trace s' = trace s @ resolve_events output_path @ evs
              \<and> (\<forall>e \<in> set evs. batch_event op e))
       \<and> resolves (trace s') = resolves (trace s) + (if output_path = None then 1 else 0)"
proof -
  let ?jobs = "arguments its lo hi op save_path overwrite transparent"
  let ?s1 = "s\<lparr>trace := trace s @ resolve_events output_path\<rparr>"
  have jobs: "\<forall>job \<in> set ?jobs. fst (snd job) = Some op"
    by (auto simp: arguments_def)
  have n: "length ?jobs = length its" by (simp add: arguments_def)
  have s': "s' = snd (run_jobs (plotting_helper viridis) ?jobs order ?s1)"
    using assms(4) batch_unfold [OF assms(1,2)] by (simp add: imap_def split: prod.splits)
  have "\<exists>evs. trace (snd (run_jobs (plotting_helper viridis) ?jobs order ?s1))
                 = trace ?s1 @ evs \<and> (\<forall>e \<in> set evs. batch_event op e)"
  proof (rule run_jobs_trace)
    show "set order \<subseteq> {..<length ?jobs}"
      using assms(3) n permutation_in_range by simp
  next
    fix i t q t'
    assume "i < length ?jobs" and "plotting_helper viridis (?jobs ! i) t = (q, t')"
    then show "\<exists>evs. trace t' = trace t @ evs \<and> (\<forall>e \<in> set evs. batch_event op e)"
      using plot_cells_at_iter_trace by (auto simp: plotting_helper_def arguments_def)
  qed
  with s' obtain evs where evs: "trace s' = trace s @ resolve_events output_path @ evs"
    "\<forall>e \<in> set evs. batch_event op e" by auto
  then have "resolves (trace s') = resolves (trace s) + (if output_path = None then 1 else 0)"
    by (simp add: resolves_append resolves_batch_events resolves_resolve_events)
  with jobs evs show ?thesis by blast
qed

theorem batch_resolves_run_once_witness:
  "fst (resolve None \<lparr>fs = disk_one_run, trace = []\<rparr>) = Inr run1
   \<and> fst (get_all_iterations (Some run1) \<lparr>fs = disk_one_run, trace = []\<rparr>) = Inr [1, 3]
   \<and> mset [1, 0] = mset [0..<length [1, 3 :: int]]
   \<and> arguments [1, 3] 0 4 run1 None False True
       = [((1, 0, 4), (Some run1, None, False, True)), ((3, 0, 4), (Some run1, None, False, True))]
   \<and> trace (snd (plot_cells_at_all_iterations grey 0 4 None None False True [1, 0]
          \<lparr>fs = disk_one_run, trace = []\<rparr>))
       = [Resolve default_search_path, Load 3 run1, Render 3, Load 1 run1, Render 1]
   \<and> resolves (trace (snd (plot_cells_at_all_iterations grey 0 4 None None False True [1, 0]
          \<lparr>fs = disk_one_run, trace = []\<rparr>))) = 1"
proof -
  let ?s = "\<lparr>fs = disk_one_run, trace = []\<rparr>"
  let ?out = "plot_cells_at_all_iterations grey 0 4 None None False True [1, 0] ?s"
  have out: "?out = (fst ?out, snd ?out)" by simp
  from batch_resolves_run_once [OF one_run_facts(1,2) swapped_order out]
  have "resolves (trace (snd ?out)) = resolves (trace ?s) + (if None = (None :: path option) then 1 else 0)"
    by blast
  then have "resolves (trace (snd ?out)) = 1" by (simp add: resolves_def)
  moreover have "arguments [1, 3] 0 4 run1 None False True
       = [((1, 0, 4), (Some run1, None, False, True)), ((3, 0, 4), (Some run1, None, False, True))]"
    by (simp add: arguments_def)
  ultimately show ?thesis
    using one_run_facts(1,2) swapped_order swapped_trace by blast
qed

text \<open>
  Claim C7 as stated fails.  With iteration 3 left without shards, the batch result is
  the bare \<open>KeyError\<close> of that iteration: it does not report that iteration 1 was
  rendered, though its snapshot was written.  And a batch that renders both iterations
  returns the same list of paths as the batch run again, which skips both: the result
  does not tell a rendered iteration from a skipped one.
\<close>

theorem batch_failure_not_collected:
  "fst (plot_cells_at_all_iterations grey 0 4 None None False True [0, 1]
          \<lparr>fs = disk_bad_iteration, trace = []\<rparr>) = Inl (KeyError ''cell.mechanics.points'')
   \<and> exists (fs (snd (plot_cells_at_all_iterations grey 0 4 None None False True [0, 1]
          \<lparr>fs = disk_bad_iteration, trace = []\<rparr>))) snapshot_1
   \<and> fst (plot_cells_at_all_iterations grey 0 4 None None False True [0, 1]
          \<lparr>fs = disk_one_run, trace = []\<rparr>) = Inr [snapshot_1, snapshot_3]
   \<and> trace (snd (plot_cells_at_all_iterations grey 0 4 None None False True [0, 1]
          \<lparr>fs = disk_one_run, trace = []\<rparr>))
       = [Resolve default_search_path, Load 1 run1, Render 1, Load 3 run1, Render 3]
   \<and> fst (plot_cells_at_all_iterations grey 0 4 None None False True [0, 1]
       (snd (plot_cells_at_all_iterations grey 0 4 None None False True [0, 1]
          \<lparr>fs = disk_one_run, trace = []\<rparr>))) = Inr [snapshot_1, snapshot_3]
   \<and> trace (snd (plot_cells_at_all_iterations grey 0 4 None None False True [0, 1]
       (snd (plot_cells_at_all_iterations grey 0 4 None None False True [0, 1]
          \<lparr>fs = disk_one_run, trace = []\<rparr>))))
       = [Resolve default_search_path, Load 1 run1, Render 1, Load 3 run1, Render 3,
          Resolve default_search_path]"
  using bad_batch good_batch by simp

text \<open>
  Claim C7 as amended.  Let \<open>results\<close> be the outcomes of the jobs, by iteration.  The
  batch raises \<open>e\<close> exactly when \<open>e\<close> is the error of the first failing iteration, in
  iteration order: a failure is never dropped, and it ends the batch without a result
  sequence.  When the batch returns, the result is the list of the snapshot paths only.
\<close>

theorem batch_raises_first_failure:
  assumes "fst (resolve output_path s) = Inr op"
    and "fst (get_all_iterations (Some op) s) = Inr its"
    and "mset order = mset [0..<length its]"
    and "results = fst (imap (plotting_helper viridis)
                     (arguments its lo hi op save_path overwrite transparent) order
                     (s\<lparr>trace := trace s @ resolve_events output_path\<rparr>))"
    and "plot_cells_at_all_iterations viridis lo hi output_path save_path overwrite transparent
           order s = (r, s')"
  shows "length results = length its
       \<and> (\<forall>e. r = Inl e \<longleftrightarrow>
            (\<exists>k<length its. results ! k = Inl e \<and> (\<forall>j<k. \<exists>p. results ! j = Inr p)))
       \<and> (\<forall>paths. r = Inr paths \<longrightarrow> paths = map (snapshot_path op save_path) its)"
proof -
  let ?jobs = "arguments its lo hi op save_path overwrite transparent"
  have n: "length ?jobs = length its" by (simp add: arguments_def)
  have r: "r = first_error results"
    using assms(4,5) batch_unfold [OF assms(1,2)] by simp
  have len: "length results = length its"
    using imap_in_job_order(1) [of order ?jobs] assms(3,4) n by simp
  have "paths = map (snapshot_path op save_path) its" if "r = Inr paths" for paths
  proof -
    from that r have res: "results = map Inr paths"
      using first_error_Inr_length by metis
    with len have lp: "length paths = length its" by simp
    have "paths ! k = snapshot_path op save_path (its ! k)" if "k < length its" for k
    proof -
      have "results ! k = Inr (paths ! k)" using res that lp by simp
      then have "fst (imap (plotting_helper viridis) ?jobs order
                   (s\<lparr>trace := trace s @ resolve_events output_path\<rparr>)) ! k = Inr (paths ! k)"
        using assms(4) by simp
      from batch_result_entry [OF assms(3) that this] show ?thesis .
    qed
    then show ?thesis using lp by (intro nth_equalityI) auto
  qed
  with r len first_error_Inl_iff [of results] show ?thesis by simp
qed


theorem batch_raises_first_failure_witness:
  "fst (resolve None \<lparr>fs = disk_bad_iteration, trace = []\<rparr>) = Inr run1
   \<and> fst (get_all_iterations (Some run1) \<lparr>fs = disk_bad_iteration, trace = []\<rparr>) = Inr [1, 3]
   \<and> mset [0, 1] = mset [0..<length [1, 3 :: int]]
   \<and> fst (imap (plotting_helper grey) (arguments [1, 3] 0 4 run1 None False True) [0, 1]
          (\<lparr>fs = disk_bad_iteration, trace = []\<rparr>
             \<lparr>trace := trace \<lparr>fs = disk_bad_iteration, trace = []\<rparr> @ resolve_events None\<rparr>))
       = [Inr snapshot_1, Inl (KeyError ''cell.mechanics.points'')]
   \<and> fst (plot_cells_at_all_iterations grey 0 4 None None False True [0, 1]
          \<lparr>fs = disk_bad_iteration, trace = []\<rparr>) = Inl (KeyError ''cell.mechanics.points'')"
proof -
  let ?s = "\<lparr>fs = disk_bad_iteration, trace = []\<rparr>"
  let ?res = "fst (imap (plotting_helper grey) (arguments [1, 3] 0 4 run1 None False True) [0, 1]
                 (?s\<lparr>trace := trace ?s @ resolve_events None\<rparr>))"
  let ?out = "plot_cells_at_all_iterations grey 0 4 None None False True [0, 1] ?s"
  have out: "?out = (fst ?out, snd ?out)" by simp
  have "\<exists>k<length [1, 3 :: int]. ?res ! k = Inl (KeyError ''cell.mechanics.points'')
          \<and> (\<forall>j<k. \<exists>p. ?res ! j = Inr p)"
    unfolding bad_results by (intro exI [of _ 1]) simp
  with batch_raises_first_failure [OF bad_run_facts identity_order refl out]
  have "fst ?out = Inl (KeyError ''cell.mechanics.points'')" by blast
  with bad_run_facts identity_order bad_results show ?thesis by blast
qed

end
